theory Spec2Isabelle
  imports Complex_Main "HOL-Library.AList"
begin

section \<open>Exceptions\<close>

text \<open>
  The scripts under \<^verbatim>\<open>examples/\<close> run on numpy arrays of floats.  Every exception
  the scripts can meet is a constructor of \<open>error\<close>; \<open>EstimatorError\<close> wraps whatever the
  external estimator raises.
\<close>

datatype 'e error =
    NegativeDimensions
  | BroadcastError
  | NegativeScale
  | SeedOutOfRange
  | KeyError
  | IndexError
  | EstimatorError 'e

text \<open>
  An exception ends the computation: \<open>bind_err m f\<close> runs \<open>f\<close> on the value of \<open>m\<close>, or
  passes on the error of \<open>m\<close>.
\<close>

definition bind_err :: "'x + 'a \<Rightarrow> ('a \<Rightarrow> 'x + 'b) \<Rightarrow> 'x + 'b" where
  "bind_err m f = (case m of Inl e \<Rightarrow> Inl e | Inr v \<Rightarrow> f v)"

section \<open>Floats\<close>

text \<open>
  A float is a finite number, an infinity or \<open>nan\<close>.  The finite floats are modelled as
  the reals: the rounding of float64 and its overflow are left out, and zero has no sign
  (a division by zero is a division by +0, the only zero divisor these scripts can
  produce).  On \<open>inf\<close> and \<open>nan\<close> the operations follow IEEE 754, as numpy does: they do
  not raise, and the value flows on.
\<close>

datatype np_float = Fin real | PInf | NInf | NaN

fun fneg :: "np_float \<Rightarrow> np_float" where
  "fneg (Fin a) = Fin (- a)"
| "fneg PInf = NInf"
| "fneg NInf = PInf"
| "fneg NaN = NaN"

fun fadd :: "np_float \<Rightarrow> np_float \<Rightarrow> np_float" where
  "fadd NaN y = NaN"
| "fadd x NaN = NaN"
| "fadd (Fin a) (Fin b) = Fin (a + b)"
| "fadd PInf NInf = NaN"
| "fadd NInf PInf = NaN"
| "fadd PInf y = PInf"
| "fadd x PInf = PInf"
| "fadd NInf y = NInf"
| "fadd x NInf = NInf"

definition fsub :: "np_float \<Rightarrow> np_float \<Rightarrow> np_float" where
  "fsub x y = fadd x (fneg y)"

fun fmul :: "np_float \<Rightarrow> np_float \<Rightarrow> np_float" where
  "fmul NaN y = NaN"
| "fmul x NaN = NaN"
| "fmul (Fin a) (Fin b) = Fin (a * b)"
| "fmul PInf (Fin b) = (if b = 0 then NaN else if 0 < b then PInf else NInf)"
| "fmul NInf (Fin b) = (if b = 0 then NaN else if 0 < b then NInf else PInf)"
| "fmul (Fin a) PInf = (if a = 0 then NaN else if 0 < a then PInf else NInf)"
| "fmul (Fin a) NInf = (if a = 0 then NaN else if 0 < a then NInf else PInf)"
| "fmul PInf PInf = PInf"
| "fmul PInf NInf = NInf"
| "fmul NInf PInf = NInf"
| "fmul NInf NInf = PInf"

fun fdiv :: "np_float \<Rightarrow> np_float \<Rightarrow> np_float" where
  "fdiv NaN y = NaN"
| "fdiv x NaN = NaN"
| "fdiv (Fin a) (Fin b) =
    (if b \<noteq> 0 then Fin (a / b) else if a = 0 then NaN else if 0 < a then PInf else NInf)"
| "fdiv (Fin a) PInf = Fin 0"
| "fdiv (Fin a) NInf = Fin 0"
| "fdiv PInf (Fin b) = (if 0 \<le> b then PInf else NInf)"
| "fdiv NInf (Fin b) = (if 0 \<le> b then NInf else PInf)"
| "fdiv PInf PInf = NaN"
| "fdiv PInf NInf = NaN"
| "fdiv NInf PInf = NaN"
| "fdiv NInf NInf = NaN"

fun fsqrt :: "np_float \<Rightarrow> np_float" where
  "fsqrt (Fin a) = (if 0 \<le> a then Fin (sqrt a) else NaN)"
| "fsqrt PInf = PInf"
| "fsqrt NInf = NaN"
| "fsqrt NaN = NaN"

fun fabs :: "np_float \<Rightarrow> np_float" where
  "fabs (Fin a) = Fin \<bar>a\<bar>"
| "fabs PInf = PInf"
| "fabs NInf = PInf"
| "fabs NaN = NaN"

text \<open>\<open>fle x y\<close> is \<^verbatim>\<open>x <= y\<close>, false as soon as one side is \<open>nan\<close>.\<close>

fun fle :: "np_float \<Rightarrow> np_float \<Rightarrow> bool" where
  "fle NaN y = False"
| "fle x NaN = False"
| "fle (Fin a) (Fin b) = (a \<le> b)"
| "fle NInf y = True"
| "fle x PInf = True"
| "fle PInf y = False"
| "fle x NInf = False"

definition fsum :: "np_float list \<Rightarrow> np_float" where
  "fsum xs = foldr fadd xs (Fin 0)"

text \<open>\<^verbatim>\<open>.mean()\<close> of an array: the mean of no entries is 0 / 0, that is \<open>nan\<close>.\<close>

definition fmean :: "np_float list \<Rightarrow> np_float" where
  "fmean xs = fdiv (fsum xs) (Fin (real (length xs)))"

section \<open>The external collaborators\<close>

text \<open>
  The process-wide generator of \<^verbatim>\<open>np.random\<close> belongs to numpy.  Its state is a
  type parameter \<open>'g\<close>, its operations are the fields of \<open>np_random\<close>:
  \<open>random_seed s\<close> is the state installed by \<^verbatim>\<open>np.random.seed(s)\<close>,
  \<open>random_normal loc scale\<close> and \<open>random_exponential scale\<close> draw one value, which is
  finite, and return the next state.
\<close>

record 'g np_random =
  random_seed :: "int \<Rightarrow> 'g"
  random_normal :: "real \<Rightarrow> real \<Rightarrow> 'g \<Rightarrow> real \<times> 'g"
  random_exponential :: "real \<Rightarrow> 'g \<Rightarrow> real \<times> 'g"

text \<open>
  \<^verbatim>\<open>MapieRegressor(LinearRegression(), alpha=alpha, method=method, n_splits=10,
  shuffle=False, return_pred="ensemble")\<close>, fitted on \<^verbatim>\<open>(X_train, y_train)\<close> and asked to
  predict on \<^verbatim>\<open>X_test\<close>, is the external estimator.  It is a parameter: a function of
  the method, alpha and the three arrays, that raises or returns the rows of
  \<^verbatim>\<open>y_preds\<close>, each row the columns 0, 1, 2 (prediction, lower bound, upper bound),
  which may hold any float.
\<close>

type_synonym 'e estimator =
  "string \<Rightarrow> real \<Rightarrow> real list list \<Rightarrow> np_float list \<Rightarrow> real list list
    \<Rightarrow> 'e + (np_float \<times> np_float \<times> np_float) list"

definition col1 :: "(np_float \<times> np_float \<times> np_float) list \<Rightarrow> np_float list" where
  "col1 y_preds = map (\<lambda>r. fst (snd r)) y_preds"

definition col2 :: "(np_float \<times> np_float \<times> np_float) list \<Rightarrow> np_float list" where
  "col2 y_preds = map (\<lambda>r. snd (snd r)) y_preds"

section \<open>Drawing arrays\<close>

primrec draws :: "('g \<Rightarrow> real \<times> 'g) \<Rightarrow> nat \<Rightarrow> 'g \<Rightarrow> real list \<times> 'g" where
  "draws f 0 g = ([], g)"
| "draws f (Suc n) g =
    (case f g of (x, g1) \<Rightarrow> (case draws f n g1 of (xs, g2) \<Rightarrow> (x # xs, g2)))"

primrec draws_rows :: "('g \<Rightarrow> real \<times> 'g) \<Rightarrow> nat \<Rightarrow> nat \<Rightarrow> 'g \<Rightarrow> real list list \<times> 'g" where
  "draws_rows f 0 k g = ([], g)"
| "draws_rows f (Suc n) k g =
    (case draws f k g of (row, g1) \<Rightarrow> (case draws_rows f n k g1 of (rows, g2) \<Rightarrow> (row # rows, g2)))"

text \<open>\<^verbatim>\<open>np.random.normal(size=n)\<close>: a negative size raises.\<close>

definition normal_size :: "'g np_random \<Rightarrow> int \<Rightarrow> 'g \<Rightarrow> 'e error + (real list \<times> 'g)" where
  "normal_size ops n g =
    (if n < 0 then Inl NegativeDimensions
     else Inr (draws (random_normal ops 0 1) (nat n) g))"

text \<open>\<^verbatim>\<open>np.random.normal(size=(n, d))\<close>: filled row by row.\<close>

definition normal_size2 :: "'g np_random \<Rightarrow> int \<Rightarrow> int \<Rightarrow> 'g \<Rightarrow> 'e error + (real list list \<times> 'g)" where
  "normal_size2 ops n d g =
    (if n < 0 \<or> d < 0 then Inl NegativeDimensions
     else Inr (draws_rows (random_normal ops 0 1) (nat n) (nat d) g))"

section \<open>One trial's dataset (lines 86 to 94 of \<^verbatim>\<open>PIs_vs_dimensions\<close>)\<close>

definition n_train :: int where "n_train = 100"
definition n_test :: int where "n_test = 100"
definition SNR :: real where "SNR = 10"

record trial_data =
  beta :: "np_float list"
  X_train :: "real list list"
  y_train :: "np_float list"
  X_test :: "real list list"
  y_test :: "np_float list"

definition beta_norm :: "real list \<Rightarrow> real" where
  "beta_norm b = sqrt (sum_list (map (\<lambda>x. x\<^sup>2) b))"

text \<open>
  \<^verbatim>\<open>beta = beta/beta_norm*np.sqrt(SNR)\<close>.  The source has no guard: on a vector of
  zeros the norm is 0 and numpy divides 0 by 0 in every entry, which gives \<open>nan\<close> in every
  entry, with a warning and no exception.
\<close>

definition normalize_beta :: "real list \<Rightarrow> np_float list" where
  "normalize_beta b =
    map (\<lambda>x. fmul (fdiv (Fin x) (Fin (beta_norm b))) (fsqrt (Fin SNR))) b"

text \<open>\<^verbatim>\<open>X.dot(beta)\<close> for a matrix given by its rows.\<close>

definition dot :: "real list list \<Rightarrow> np_float list \<Rightarrow> np_float list" where
  "dot X b = map (\<lambda>row. fsum (map2 (\<lambda>x y. fmul (Fin x) y) row b)) X"

definition gen_data :: "'g np_random \<Rightarrow> int \<Rightarrow> 'g \<Rightarrow> 'e error + (trial_data \<times> 'g)" where
  "gen_data ops dimension g =
    bind_err (normal_size ops dimension g) (\<lambda>(beta0, g1).
    bind_err (normal_size2 ops n_train dimension g1) (\<lambda>(Xtr, g2).
    bind_err (normal_size ops n_train g2) (\<lambda>(noise_train, g3).
    bind_err (normal_size ops n_test g3) (\<lambda>(noise_test, g4).
    bind_err (normal_size2 ops n_test dimension g4) (\<lambda>(Xte, g5).
      Inr (\<lparr> beta = normalize_beta beta0,
             X_train = Xtr,
             y_train = map2 fadd (dot Xtr (normalize_beta beta0)) (map Fin noise_train),
             X_test = Xte,
             y_test = map2 fadd (dot Xte (normalize_beta beta0)) (map Fin noise_test) \<rparr>, g5))))))"

text \<open>
  The order of the draws as the specification lists its steps: coefficient vector, then
  both design matrices, then the two noise vectors.  Used only to compare with
  \<open>gen_data\<close>.
\<close>

definition gen_data_spec_order :: "'g np_random \<Rightarrow> int \<Rightarrow> 'g \<Rightarrow> 'e error + (trial_data \<times> 'g)" where
  "gen_data_spec_order ops dimension g =
    bind_err (normal_size ops dimension g) (\<lambda>(beta0, g1).
    bind_err (normal_size2 ops n_train dimension g1) (\<lambda>(Xtr, g2).
    bind_err (normal_size2 ops n_test dimension g2) (\<lambda>(Xte, g3).
    bind_err (normal_size ops n_train g3) (\<lambda>(noise_train, g4).
    bind_err (normal_size ops n_test g4) (\<lambda>(noise_test, g5).
      Inr (\<lparr> beta = normalize_beta beta0,
             X_train = Xtr,
             y_train = map2 fadd (dot Xtr (normalize_beta beta0)) (map Fin noise_train),
             X_test = Xte,
             y_test = map2 fadd (dot Xte (normalize_beta beta0)) (map Fin noise_test) \<rparr>, g5))))))"

section \<open>Coverage and mean width of one fit (lines 107 to 111)\<close>

text \<open>
  numpy applies a binary operation to two one-dimensional arrays entry by entry when the
  lengths agree, stretches an array of length 1 to the other length, and raises otherwise.
\<close>

definition broadcast2 :: "('a \<Rightarrow> 'b \<Rightarrow> 'c) \<Rightarrow> 'a list \<Rightarrow> 'b list \<Rightarrow> 'e error + 'c list" where
  "broadcast2 f xs ys =
    (if length xs = length ys then Inr (map2 f xs ys)
     else if length xs = 1 then Inr (map (f (hd xs)) ys)
     else if length ys = 1 then Inr (map (\<lambda>x. f x (hd ys)) xs)
     else Inl BroadcastError)"

text \<open>The mean of an array of booleans counts \<^verbatim>\<open>True\<close> as 1 and \<^verbatim>\<open>False\<close> as 0.\<close>

definition mean_bool :: "bool list \<Rightarrow> np_float" where
  "mean_bool bs = fmean (map (\<lambda>b. if b then Fin 1 else Fin 0) bs)"

definition coverage_of ::
  "(np_float \<times> np_float \<times> np_float) list \<Rightarrow> np_float list \<Rightarrow> 'e error + np_float" where
  "coverage_of y_preds yt =
    bind_err (broadcast2 fle (col1 y_preds) yt) (\<lambda>below.
    bind_err (broadcast2 (\<lambda>u y. fle y u) (col2 y_preds) yt) (\<lambda>above.
    bind_err (broadcast2 (\<and>) below above) (\<lambda>inside. Inr (mean_bool inside))))"

definition width_mean_of :: "(np_float \<times> np_float \<times> np_float) list \<Rightarrow> 'e error + np_float" where
  "width_mean_of y_preds =
    bind_err (broadcast2 fsub (col2 y_preds) (col1 y_preds)) (\<lambda>widths. Inr (fmean widths))"

section \<open>The result table\<close>

text \<open>
  A Python dict keeps its keys in insertion order; assigning to a key that is present
  replaces the value in place, which is \<^const>\<open>AList.update\<close> on an association list.
  The arrays of a cell come from \<^verbatim>\<open>np.empty\<close>, which leaves their entries
  uninitialised: an entry is \<open>None\<close> until it is assigned.
\<close>

record cell =
  coverage :: "np_float option list"
  width_mean :: "np_float option list"

type_synonym results = "(string \<times> (int \<times> cell) list) list"

definition dict_of :: "('k \<times> 'v) list \<Rightarrow> ('k \<times> 'v) list" where
  "dict_of kvs = foldl (\<lambda>d (k, v). AList.update k v d) [] kvs"

definition np_empty :: "int \<Rightarrow> 'e error + np_float option list" where
  "np_empty n = (if n < 0 then Inl NegativeDimensions else Inr (replicate (nat n) None))"

definition empty_cell :: "int \<Rightarrow> 'e error + cell" where
  "empty_cell n =
    bind_err (np_empty n) (\<lambda>c.
    bind_err (np_empty n) (\<lambda>w. Inr \<lparr> coverage = c, width_mean = w \<rparr>))"

text \<open>The entries of a comprehension are evaluated from left to right.\<close>

fun traverse :: "('a \<Rightarrow> 'x + 'b) \<Rightarrow> 'a list \<Rightarrow> 'x + 'b list" where
  "traverse f [] = Inr []"
| "traverse f (x # xs) =
    bind_err (f x) (\<lambda>y. bind_err (traverse f xs) (\<lambda>ys. Inr (y # ys)))"

definition init_results :: "string list \<Rightarrow> int \<Rightarrow> int list \<Rightarrow> 'e error + results" where
  "init_results methods n_trial dimensions =
    bind_err (traverse (\<lambda>method.
        bind_err (traverse (\<lambda>dimension.
            bind_err (empty_cell n_trial) (\<lambda>c. Inr (dimension, c))) dimensions)
          (\<lambda>kvs. Inr (method, dict_of kvs))) methods)
      (\<lambda>kvs. Inr (dict_of kvs))"

definition cell_at :: "results \<Rightarrow> string \<Rightarrow> int \<Rightarrow> cell option" where
  "cell_at res method dimension =
    (case map_of res method of None \<Rightarrow> None | Some inner \<Rightarrow> map_of inner dimension)"

text \<open>
  \<^verbatim>\<open>results[method][dimension]["coverage"][trial] = v\<close>: a missing key or an index out
  of range raises.
\<close>

definition set_coverage :: "results \<Rightarrow> string \<Rightarrow> int \<Rightarrow> nat \<Rightarrow> np_float \<Rightarrow> 'e error + results" where
  "set_coverage res method dimension trial v =
    (case map_of res method of None \<Rightarrow> Inl KeyError | Some inner \<Rightarrow>
      (case map_of inner dimension of None \<Rightarrow> Inl KeyError | Some c \<Rightarrow>
        (if trial < length (coverage c)
         then Inr (AList.update method
                 (AList.update dimension (c\<lparr> coverage := (coverage c)[trial := Some v] \<rparr>) inner) res)
         else Inl IndexError)))"

definition set_width_mean :: "results \<Rightarrow> string \<Rightarrow> int \<Rightarrow> nat \<Rightarrow> np_float \<Rightarrow> 'e error + results" where
  "set_width_mean res method dimension trial v =
    (case map_of res method of None \<Rightarrow> Inl KeyError | Some inner \<Rightarrow>
      (case map_of inner dimension of None \<Rightarrow> Inl KeyError | Some c \<Rightarrow>
        (if trial < length (width_mean c)
         then Inr (AList.update method
                 (AList.update dimension (c\<lparr> width_mean := (width_mean c)[trial := Some v] \<rparr>) inner) res)
         else Inl IndexError)))"

section \<open>The harness \<^verbatim>\<open>PIs_vs_dimensions\<close>\<close>

text \<open>Lines 96 to 113: the loop over the methods, on one dataset.\<close>

fun method_loop ::
  "'e estimator \<Rightarrow> real \<Rightarrow> trial_data \<Rightarrow> int \<Rightarrow> nat \<Rightarrow> string list \<Rightarrow> results \<Rightarrow> 'e error + results" where
  "method_loop est alpha ds dimension trial [] res = Inr res"
| "method_loop est alpha ds dimension trial (method # methods) res =
    (case est method alpha (X_train ds) (y_train ds) (X_test ds) of
       Inl e \<Rightarrow> Inl (EstimatorError e)
     | Inr y_preds \<Rightarrow>
        bind_err (coverage_of y_preds (y_test ds)) (\<lambda>cov.
        bind_err (width_mean_of y_preds) (\<lambda>wid.
        bind_err (set_coverage res method dimension trial cov) (\<lambda>res1.
        bind_err (set_width_mean res1 method dimension trial wid) (\<lambda>res2.
          method_loop est alpha ds dimension trial methods res2)))))"

text \<open>Lines 85 to 113: one trial draws its dataset, then runs the methods on it.\<close>

definition trial_body ::
  "'g np_random \<Rightarrow> 'e estimator \<Rightarrow> real \<Rightarrow> string list \<Rightarrow> int \<Rightarrow> nat \<Rightarrow> results \<times> 'g
    \<Rightarrow> 'e error + (results \<times> 'g)" where
  "trial_body ops est alpha methods dimension trial st =
    (case st of (res, g) \<Rightarrow>
      bind_err (gen_data ops dimension g) (\<lambda>(ds, g').
      bind_err (method_loop est alpha ds dimension trial methods res) (\<lambda>res'.
        Inr (res', g'))))"

fun trial_loop ::
  "'g np_random \<Rightarrow> 'e estimator \<Rightarrow> real \<Rightarrow> string list \<Rightarrow> int \<Rightarrow> nat list \<Rightarrow> results \<times> 'g
    \<Rightarrow> 'e error + (results \<times> 'g)" where
  "trial_loop ops est alpha methods dimension [] st = Inr st"
| "trial_loop ops est alpha methods dimension (trial # trials) st =
    bind_err (trial_body ops est alpha methods dimension trial st)
      (trial_loop ops est alpha methods dimension trials)"

text \<open>\<^verbatim>\<open>range(n_trial)\<close> is empty for a negative \<^verbatim>\<open>n_trial\<close>.\<close>

definition range_py :: "int \<Rightarrow> nat list" where
  "range_py n = [0 ..< nat n]"

fun dimension_loop ::
  "'g np_random \<Rightarrow> 'e estimator \<Rightarrow> real \<Rightarrow> string list \<Rightarrow> int \<Rightarrow> int list \<Rightarrow> results \<times> 'g
    \<Rightarrow> 'e error + (results \<times> 'g)" where
  "dimension_loop ops est alpha methods n_trial [] st = Inr st"
| "dimension_loop ops est alpha methods n_trial (dimension # dimensions) st =
    bind_err (trial_loop ops est alpha methods dimension (range_py n_trial) st)
      (dimension_loop ops est alpha methods n_trial dimensions)"

text \<open>
  The harness, from the state \<open>g\<close> of the generator at the call.  It returns the table
  and the state the generator is left in, or the exception that ended the call.
\<close>

definition PIs_vs_dimensions ::
  "'g np_random \<Rightarrow> 'e estimator \<Rightarrow> string list \<Rightarrow> real \<Rightarrow> int \<Rightarrow> int list \<Rightarrow> 'g
    \<Rightarrow> 'e error + (results \<times> 'g)" where
  "PIs_vs_dimensions ops est methods alpha n_trial dimensions g =
    bind_err (init_results methods n_trial dimensions) (\<lambda>res.
      dimension_loop ops est alpha methods n_trial dimensions (res, g))"

section \<open>The plotting step \<^verbatim>\<open>plot_simulation_results\<close>\<close>

text \<open>
  What the function leaves on the two axes is the panel data.  A plotted value is
  \<open>None\<close> when it is computed from an array with an entry that \<^verbatim>\<open>np.empty\<close> left
  unassigned.
\<close>

datatype artist =
    Line "int list" "np_float option list" string
  | Band "int list" "np_float option list" "np_float option list"
  | HLine real

record axes =
  artists :: "artist list"
  ylim :: "(real \<times> real) option"
  xlabel :: string
  ylabel :: string
  legend :: bool

record figure =
  suptitle :: string
  ax1 :: axes
  ax2 :: axes

definition new_axes :: axes where
  "new_axes = \<lparr> artists = [], ylim = None, xlabel = [], ylabel = [], legend = False \<rparr>"

definition assigned :: "np_float option list \<Rightarrow> np_float list option" where
  "assigned a = (if None \<in> set a then None else Some (map the a))"

definition array_mean :: "np_float option list \<Rightarrow> np_float option" where
  "array_mean a = map_option fmean (assigned a)"

text \<open>\<^verbatim>\<open>.std()\<close>: the square root of the mean squared deviation from the mean.\<close>

definition array_std :: "np_float option list \<Rightarrow> np_float option" where
  "array_std a =
    map_option (\<lambda>xs. fsqrt (fmean (map (\<lambda>x. fmul (fabs (fsub x (fmean xs))) (fabs (fsub x (fmean xs)))) xs)))
      (assigned a)"

text \<open>\<^verbatim>\<open>.std()/np.sqrt(ntrial)\<close>, with the global \<^verbatim>\<open>ntrial\<close> of the script.\<close>

definition standard_error :: "int \<Rightarrow> np_float option list \<Rightarrow> np_float option" where
  "standard_error ntrial a =
    map_option (\<lambda>s. fdiv s (fsqrt (Fin (real_of_int ntrial)))) (array_std a)"

definition minus_arr :: "np_float option list \<Rightarrow> np_float option list \<Rightarrow> np_float option list" where
  "minus_arr a b = map2 (\<lambda>x y. case (x, y) of (Some u, Some v) \<Rightarrow> Some (fsub u v) | _ \<Rightarrow> None) a b"

definition plus_arr :: "np_float option list \<Rightarrow> np_float option list \<Rightarrow> np_float option list" where
  "plus_arr a b = map2 (\<lambda>x y. case (x, y) of (Some u, Some v) \<Rightarrow> Some (fadd u v) | _ \<Rightarrow> None) a b"

text \<open>Lines 145 to 149: the loop over \<^verbatim>\<open>enumerate(dimensions)\<close> fills four arrays.\<close>

fun idim_loop ::
  "int \<Rightarrow> (int \<times> cell) list \<Rightarrow> (nat \<times> int) list
    \<Rightarrow> np_float option list \<times> np_float option list \<times> np_float option list \<times> np_float option list
    \<Rightarrow> 'e error + (np_float option list \<times> np_float option list \<times> np_float option list
          \<times> np_float option list)" where
  "idim_loop ntrial inner [] arrs = Inr arrs"
| "idim_loop ntrial inner ((idim, dimension) # rest) (cm, cse, wm, wse) =
    (case map_of inner dimension of None \<Rightarrow> Inl KeyError
     | Some c \<Rightarrow>
        if idim < length cm \<and> idim < length cse \<and> idim < length wm \<and> idim < length wse
        then idim_loop ntrial inner rest
               (cm[idim := array_mean (coverage c)],
                cse[idim := standard_error ntrial (coverage c)],
                wm[idim := array_mean (width_mean c)],
                wse[idim := standard_error ntrial (width_mean c)])
        else Inl IndexError)"

text \<open>
  Lines 139 to 157, the body of \<^verbatim>\<open>for method in results\<close>, on the pair of the table
  object and the figure.
\<close>

definition plot_method :: "int \<Rightarrow> string \<Rightarrow> results \<times> figure \<Rightarrow> 'e error + (results \<times> figure)" where
  "plot_method ntrial method st =
    (case st of (res, fig) \<Rightarrow>
      (case map_of res method of None \<Rightarrow> Inl KeyError
       | Some inner \<Rightarrow>
          (let dimensions = map fst inner;
               n_dim = length dimensions;
               zeros = replicate n_dim (Some (Fin 0))
           in bind_err (idim_loop ntrial inner (enumerate 0 dimensions) (zeros, zeros, zeros, zeros))
                (\<lambda>(cm, cse, wm, wse).
                  Inr (res,
                       fig\<lparr> ax1 := (ax1 fig)\<lparr> artists := artists (ax1 fig) @
                                [Line dimensions cm method,
                                 Band dimensions (minus_arr cm cse) (plus_arr cm cse)] \<rparr>,
                            ax2 := (ax2 fig)\<lparr> artists := artists (ax2 fig) @
                                [Line dimensions wm method,
                                 Band dimensions (minus_arr wm wse) (plus_arr wm wse)] \<rparr> \<rparr>)))))"

fun plot_methods :: "int \<Rightarrow> string list \<Rightarrow> results \<times> figure \<Rightarrow> 'e error + (results \<times> figure)" where
  "plot_methods ntrial [] st = Inr st"
| "plot_methods ntrial (method # methods) st =
    bind_err (plot_method ntrial method st) (plot_methods ntrial methods)"

text \<open>
  The function reads the globals \<^verbatim>\<open>ntrial\<close> and \<^verbatim>\<open>alpha\<close> of the script: they are
  the first two parameters.  Its parameter \<^verbatim>\<open>methods\<close> is not used by the body.  The
  result is the table object after the call and the figure that was drawn.
\<close>

definition plot_simulation_results ::
  "int \<Rightarrow> real \<Rightarrow> results \<Rightarrow> string list \<Rightarrow> string \<Rightarrow> 'e error + (results \<times> figure)" where
  "plot_simulation_results ntrial alpha res methods title =
    bind_err (plot_methods ntrial (map fst res)
        (res, \<lparr> suptitle = title, ax1 = new_axes, ax2 = new_axes \<rparr>))
      (\<lambda>(res', fig).
        Inr (res',
             fig\<lparr> ax1 := (ax1 fig)\<lparr> artists := artists (ax1 fig) @ [HLine (1 - alpha)],
                                    ylim := Some (0, 1),
                                    xlabel := ''Dimension d'',
                                    ylabel := ''Coverage'',
                                    legend := True \<rparr>,
                  ax2 := (ax2 fig)\<lparr> ylim := Some (0, 20),
                                    xlabel := ''Dimension d'',
                                    ylabel := ''Interval width'',
                                    legend := True \<rparr> \<rparr>))"

section \<open>The data of the one-dimensional example\<close>

definition f :: "real \<Rightarrow> real" where
  "f x = 5 * x + 5 * x ^ 4 - 9 * x\<^sup>2"

text \<open>\<^verbatim>\<open>np.random.exponential(scale, n)\<close> and \<^verbatim>\<open>np.random.normal(loc, scale, n)\<close>.\<close>

definition exponential_size :: "'g np_random \<Rightarrow> real \<Rightarrow> int \<Rightarrow> 'g \<Rightarrow> 'e error + (real list \<times> 'g)" where
  "exponential_size ops scale n g =
    (if scale < 0 then Inl NegativeScale
     else if n < 0 then Inl NegativeDimensions
     else Inr (draws (random_exponential ops scale) (nat n) g))"

definition normal_loc_scale_size ::
  "'g np_random \<Rightarrow> real \<Rightarrow> real \<Rightarrow> int \<Rightarrow> 'g \<Rightarrow> 'e error + (real list \<times> 'g)" where
  "normal_loc_scale_size ops loc scale n g =
    (if scale < 0 then Inl NegativeScale
     else if n < 0 then Inl NegativeDimensions
     else Inr (draws (random_normal ops loc scale) (nat n) g))"

text \<open>\<^verbatim>\<open>np.linspace(start, stop, num, endpoint=False)\<close>.\<close>

definition linspace :: "real \<Rightarrow> real \<Rightarrow> int \<Rightarrow> 'e error + real list" where
  "linspace start stop num =
    (if num < 0 then Inl NegativeDimensions
     else Inr (map (\<lambda>i. start + real i * ((stop - start) / real_of_int num)) [0 ..< nat num]))"

text \<open>
  \<^verbatim>\<open>np.random.seed(s)\<close> is a statement on the process-wide generator: it replaces the
  state the generator is in by the state of the seed, and raises when the seed is not
  between 0 and \<open>2 ^ 32 - 1\<close>.
\<close>

definition np_random_seed :: "'g np_random \<Rightarrow> int \<Rightarrow> 'g \<Rightarrow> 'e error + 'g" where
  "np_random_seed ops s g =
    (if s < 0 \<or> 2 ^ 32 \<le> s then Inl SeedOutOfRange else Inr (random_seed ops s))"

text \<open>
  \<^verbatim>\<open>get_homoscedastic_data\<close>, called with the generator in state \<open>g\<close>.  Its first
  statement is \<^verbatim>\<open>np.random.seed(59)\<close>.
\<close>

definition get_homoscedastic_data ::
  "'g np_random \<Rightarrow> int \<Rightarrow> int \<Rightarrow> real \<Rightarrow> 'g
    \<Rightarrow> 'e error + ((real list \<times> real list \<times> real list \<times> real list \<times> real) \<times> 'g)" where
  "get_homoscedastic_data ops n_samples ntest sigma g =
    bind_err (np_random_seed ops 59 g) (\<lambda>g0.
      let q90 = 18 / 10
      in bind_err (exponential_size ops (4 / 10) n_samples g0) (\<lambda>(Xtr, g1).
         bind_err (linspace (1 / 1000) (12 / 10) ntest) (\<lambda>Xte.
         bind_err (normal_loc_scale_size ops 0 sigma n_samples g1) (\<lambda>(noise, g2).
           Inr ((Xtr, map2 (+) (map f Xtr) noise, Xte, map f Xte, q90 * sigma), g2)))))"

text \<open>
  A script that fixes the seed and then runs the harness: \<^verbatim>\<open>np.random.seed(s)\<close>
  followed by \<^verbatim>\<open>PIs_vs_dimensions(methods, alpha, n_trial, dimensions)\<close>.
\<close>

definition seeded_run ::
  "'g np_random \<Rightarrow> int \<Rightarrow> 'e estimator \<Rightarrow> string list \<Rightarrow> real \<Rightarrow> int \<Rightarrow> int list \<Rightarrow> 'g
    \<Rightarrow> 'e error + (results \<times> 'g)" where
  "seeded_run ops s est methods alpha n_trial dimensions g =
    bind_err (np_random_seed ops s g) (\<lambda>g0.
      PIs_vs_dimensions ops est methods alpha n_trial dimensions g0)"

section \<open>The order of the writes\<close>

text \<open>
  The cells the loop nest of lines 84, 85 and 96 assigns at lines 112 and 113, in the
  order of the assignments.
\<close>

definition writes :: "string list \<Rightarrow> int \<Rightarrow> int list \<Rightarrow> (string \<times> int \<times> nat) list" where
  "writes methods n_trial dimensions =
    concat (map (\<lambda>dimension.
      concat (map (\<lambda>trial.
        map (\<lambda>method. (method, dimension, trial)) methods) (range_py n_trial))) dimensions)"

definition record_trial ::
  "results \<Rightarrow> (string \<times> int \<times> nat) \<times> (np_float \<times> np_float) \<Rightarrow> 'e error + results" where
  "record_trial res w =
    (case w of ((method, dimension, trial), (cov, wid)) \<Rightarrow>
      bind_err (set_coverage res method dimension trial cov) (\<lambda>res1.
        set_width_mean res1 method dimension trial wid))"

fun run_writes ::
  "results \<Rightarrow> ((string \<times> int \<times> nat) \<times> (np_float \<times> np_float)) list \<Rightarrow> 'e error + results" where
  "run_writes res [] = Inr res"
| "run_writes res (w # ws) = bind_err (record_trial res w) (\<lambda>res'. run_writes res' ws)"

section \<open>Collaborators for running the model on concrete inputs\<close>

text \<open>
  A generator whose state is a counter and whose draws are the counter's values, and
  three estimators that return one row for each row of the test matrix: one with the
  same row for every test point, one whose upper bound is the first entry of the test
  matrix, one that always raises.
\<close>

definition counter_ops :: "nat np_random" where
  "counter_ops = \<lparr> random_seed = (\<lambda>s. nat \<bar>s\<bar>),
                   random_normal = (\<lambda>loc scale g. (loc + scale * real g, Suc g)),
                   random_exponential = (\<lambda>scale g. (scale * real g, Suc g)) \<rparr>"

definition est_const :: "np_float \<times> np_float \<times> np_float \<Rightarrow> unit estimator" where
  "est_const row = (\<lambda>method alpha Xtr ytr Xte. Inr (map (\<lambda>x. row) Xte))"

definition est_first :: "unit estimator" where
  "est_first =
    (\<lambda>method alpha Xtr ytr Xte. Inr (map (\<lambda>x. (Fin 0, Fin 0, Fin (Xte ! 0 ! 0))) Xte))"

definition est_fail :: "unit estimator" where
  "est_fail = (\<lambda>method alpha Xtr ytr Xte. Inl ())"

section \<open>Notions used in the statements\<close>

text \<open>
  The cell a comprehension entry starts with, and the table of line 76 when
  \<^verbatim>\<open>np.empty\<close> does not raise.
\<close>

definition blank :: "int \<Rightarrow> cell" where
  "blank n = \<lparr> coverage = replicate (nat n) None, width_mean = replicate (nat n) None \<rparr>"

definition init_table :: "string list \<Rightarrow> int \<Rightarrow> int list \<Rightarrow> results" where
  "init_table methods n dims =
     dict_of (map (\<lambda>m. (m, dict_of (map (\<lambda>d. (d, blank n)) dims))) methods)"

text \<open>
  What one pass of the method loop computes for a method on a dataset, before the two
  assignments: the fit, then the coverage and the mean width of its prediction.
\<close>

definition fit_scores ::
  "'e estimator \<Rightarrow> real \<Rightarrow> trial_data \<Rightarrow> string \<Rightarrow> 'e error + (np_float \<times> np_float)" where
  "fit_scores est alpha ds method =
    (case est method alpha (X_train ds) (y_train ds) (X_test ds) of
       Inl e \<Rightarrow> Inl (EstimatorError e)
     | Inr y_preds \<Rightarrow>
        bind_err (coverage_of y_preds (y_test ds)) (\<lambda>cov.
        bind_err (width_mean_of y_preds) (\<lambda>wid. Inr (cov, wid))))"

text \<open>
  A written value is a drawn score when it is the score of the method on some dataset
  that \<open>gen_data\<close> draws at the cell's dimension.
\<close>

definition drawn_score ::
  "'g np_random \<Rightarrow> 'e estimator \<Rightarrow> real \<Rightarrow> (string \<times> int \<times> nat) \<times> (np_float \<times> np_float) \<Rightarrow> bool" where
  "drawn_score ops est alpha w =
    (case w of ((method, dimension, trial), sc) \<Rightarrow>
      \<exists>g ds g'. gen_data ops dimension g = (Inr (ds, g') :: 'e error + trial_data \<times> 'g) \<and>
        fit_scores est alpha ds method = Inr sc)"

text \<open>The lengths of the two arrays of a cell.\<close>

definition shape_of :: "results \<Rightarrow> string \<Rightarrow> int \<Rightarrow> (nat \<times> nat) option" where
  "shape_of res m d = map_option (\<lambda>c. (length (coverage c), length (width_mean c))) (cell_at res m d)"

text \<open>
  A loop whose body may raise: the first exception ends the loop.  \<open>iterations\<close> lists
  the (dimension, trial) pairs in the order the two outer loops visit them.
\<close>

fun fold_err :: "('a \<Rightarrow> 's \<Rightarrow> 'x + 's) \<Rightarrow> 'a list \<Rightarrow> 's \<Rightarrow> 'x + 's" where
  "fold_err step [] st = Inr st"
| "fold_err step (x # xs) st = bind_err (step x st) (fold_err step xs)"

definition iterations :: "int \<Rightarrow> int list \<Rightarrow> (int \<times> nat) list" where
  "iterations n_trial dimensions =
    concat (map (\<lambda>dimension. map (\<lambda>trial. (dimension, trial)) (range_py n_trial)) dimensions)"

text \<open>
  A table is fully populated for a call when every (method, dimension) of the call has a
  cell whose two arrays have length \<open>n_trial\<close> and no unassigned entry.
\<close>

definition fully_populated :: "results \<Rightarrow> string list \<Rightarrow> int \<Rightarrow> int list \<Rightarrow> bool" where
  "fully_populated res methods n_trial dimensions =
    list_all (\<lambda>method. list_all (\<lambda>dimension.
      (case cell_at res method dimension of
         None \<Rightarrow> False
       | Some c \<Rightarrow> int (length (coverage c)) = n_trial \<and> int (length (width_mean c)) = n_trial \<and>
           list_all (\<lambda>v. v \<noteq> None) (coverage c) \<and> list_all (\<lambda>v. v \<noteq> None) (width_mean c)))
      dimensions) methods"

section \<open>Basic facts\<close>

lemma bind_err_simps [simp]:
  "bind_err (Inl e) k = Inl e"
  "bind_err (Inr v) k = k v"
  by (simp_all add: bind_err_def)

lemma bind_err_eq_Inr:
  "bind_err m k = Inr y \<longleftrightarrow> (\<exists>v. m = Inr v \<and> k v = Inr y)"
  by (cases m) simp_all

lemma bind_err_eq_Inl:
  "bind_err m k = Inl e \<longleftrightarrow> m = Inl e \<or> (\<exists>v. m = Inr v \<and> k v = Inl e)"
  by (cases m) simp_all

lemma bind_err_prod_eq_Inr:
  "bind_err m (\<lambda>(a, b). k a b) = Inr y \<longleftrightarrow> (\<exists>a b. m = Inr (a, b) \<and> k a b = Inr y)"
  by (cases m) auto

lemma sum_sq_zero_iff: "sum_list (map (\<lambda>x::real. x\<^sup>2) b) = 0 \<longleftrightarrow> (\<forall>x\<in>set b. x = 0)"
proof (induction b)
  case Nil
  show ?case by simp
next
  case (Cons a b)
  have nn: "0 \<le> sum_list (map (\<lambda>x::real. x\<^sup>2) b)"
    by (rule sum_list_nonneg) auto
  have "a\<^sup>2 + sum_list (map (\<lambda>x::real. x\<^sup>2) b) = 0 \<longleftrightarrow> a\<^sup>2 = 0 \<and> sum_list (map (\<lambda>x::real. x\<^sup>2) b) = 0"
    using nn by (simp add: add_nonneg_eq_0_iff)
  then show ?case using Cons.IH by simp
qed

lemma beta_norm_zero_iff: "beta_norm b = 0 \<longleftrightarrow> (\<forall>x\<in>set b. x = 0)"
  by (simp add: beta_norm_def sum_sq_zero_iff)

lemma beta_norm_nonneg: "0 \<le> beta_norm b"
  by (auto intro!: sum_list_nonneg simp: beta_norm_def)

lemma sum_sq_scale:
  "sum_list (map (\<lambda>x::real. x\<^sup>2) (map (\<lambda>x. x / c * k) b)) = (k / c)\<^sup>2 * sum_list (map (\<lambda>x. x\<^sup>2) b)"
  by (induction b) (simp_all add: power_mult_distrib power_divide algebra_simps)

lemma beta_norm_scale: "beta_norm (map (\<lambda>x. x / c * k) b) = \<bar>k\<bar> / \<bar>c\<bar> * beta_norm b"
  unfolding beta_norm_def sum_sq_scale by (simp add: real_sqrt_mult abs_divide)

lemma normalize_beta_nonzero:
  assumes "\<exists>x\<in>set b. x \<noteq> 0"
  shows "normalize_beta b = map (\<lambda>x. Fin (x / beta_norm b * sqrt SNR)) b"
proof -
  have nz: "beta_norm b \<noteq> 0" using assms by (simp add: beta_norm_zero_iff)
  then show ?thesis by (simp add: normalize_beta_def SNR_def)
qed


lemma length_normalize_beta [simp]: "length (normalize_beta b) = length b"
  by (simp add: normalize_beta_def)

lemma normal_counter [simp]: "random_normal counter_ops 0 1 = (\<lambda>g. (real g, Suc g))"
  by (simp add: counter_ops_def)

lemma draws_counter:
  "draws (\<lambda>g. (real g, Suc g)) n g = (map real [g ..< g + n], g + n)"
proof (induction n arbitrary: g)
  case 0
  show ?case by simp
next
  case (Suc n)
  have "[g ..< g + Suc n] = g # [Suc g ..< Suc g + n]"
    by (simp add: upt_conv_Cons)
  then show ?case using Suc.IH [of "Suc g"] by simp
qed

lemma draws_rows_counter:
  "draws_rows (\<lambda>g. (real g, Suc g)) n k g =
     (map (\<lambda>i. map real [g + i * k ..< g + i * k + k]) [0 ..< n], g + n * k)"
proof (induction n arbitrary: g)
  case 0
  show ?case by simp
next
  case (Suc n)
  have "map (\<lambda>i. map real [g + i * k ..< g + i * k + k]) [0 ..< Suc n]
      = map real [g ..< g + k] # map (\<lambda>i. map real [g + k + i * k ..< g + k + i * k + k]) [0 ..< n]"
    by (simp add: map_upt_Suc add.assoc del: upt_Suc)
  then show ?case using Suc.IH [of "g + k"] by (simp add: draws_counter add.assoc add.commute del: upt_Suc)
qed

lemma length_draws: "length (fst (draws h n g)) = n"
proof (induction n arbitrary: g)
  case 0
  show ?case by simp
next
  case (Suc n)
  obtain x g1 where a: "h g = (x, g1)" by (cases "h g")
  obtain xs g2 where b: "draws h n g1 = (xs, g2)" by (cases "draws h n g1")
  show ?case using Suc.IH [of g1] a b by simp
qed

lemma draws_rows_shape:
  "length (fst (draws_rows h n k g)) = n \<and> (\<forall>row\<in>set (fst (draws_rows h n k g)). length row = k)"
proof (induction n arbitrary: g)
  case 0
  show ?case by simp
next
  case (Suc n)
  obtain row g1 where r: "draws h k g = (row, g1)" by (cases "draws h k g")
  have "length row = k" using length_draws [of h k g] r by simp
  then show ?case using Suc.IH [of g1] r by (auto split: prod.splits)
qed

lemma gen_data_draw_order_aux:
  assumes ok: "(gen_data ops d g :: 'e error + trial_data \<times> 'g) = Inr (ds, g')"
  shows "\<exists>b0 g1 g2 noise_train g3 noise_test g4.
      0 \<le> d \<and>
      draws (random_normal ops 0 1) (nat d) g = (b0, g1) \<and>
      beta ds = normalize_beta b0 \<and>
      draws_rows (random_normal ops 0 1) 100 (nat d) g1 = (X_train ds, g2) \<and>
      draws (random_normal ops 0 1) 100 g2 = (noise_train, g3) \<and>
      draws (random_normal ops 0 1) 100 g3 = (noise_test, g4) \<and>
      draws_rows (random_normal ops 0 1) 100 (nat d) g4 = (X_test ds, g') \<and>
      y_train ds = map2 fadd (dot (X_train ds) (beta ds)) (map Fin noise_train) \<and>
      y_test ds = map2 fadd (dot (X_test ds) (beta ds)) (map Fin noise_test)"
proof -
  let ?N = "random_normal ops 0 1"
  have dn: "0 \<le> d"
    using ok by (auto simp: gen_data_def normal_size_def split: if_splits)
  obtain b0 g1 where d1: "draws ?N (nat d) g = (b0, g1)"
    by (cases "draws ?N (nat d) g")
  obtain Xtr g2 where d2: "draws_rows ?N 100 (nat d) g1 = (Xtr, g2)"
    by (cases "draws_rows ?N 100 (nat d) g1")
  obtain ntr g3 where d3: "draws ?N 100 g2 = (ntr, g3)"
    by (cases "draws ?N 100 g2")
  obtain nte g4 where d4: "draws ?N 100 g3 = (nte, g4)"
    by (cases "draws ?N 100 g3")
  obtain Xte g5 where d5: "draws_rows ?N 100 (nat d) g4 = (Xte, g5)"
    by (cases "draws_rows ?N 100 (nat d) g4")
  have res: "ds = \<lparr> beta = normalize_beta b0, X_train = Xtr,
                    y_train = map2 fadd (dot Xtr (normalize_beta b0)) (map Fin ntr),
                    X_test = Xte,
                    y_test = map2 fadd (dot Xte (normalize_beta b0)) (map Fin nte) \<rparr>" "g' = g5"
    using ok dn d1 d2 d3 d4 d5
    by (simp_all add: gen_data_def normal_size_def normal_size2_def n_train_def n_test_def)
  show ?thesis
    using dn d1 d2 d3 d4 d5 res by simp
qed

lemma gen_data_ok:
  assumes "0 \<le> d"
  shows "\<exists>ds g'. gen_data ops d g = (Inr (ds, g') :: 'e error + trial_data \<times> 'g)"
  using assms
  by (simp add: gen_data_def normal_size_def normal_size2_def n_train_def n_test_def
      split: prod.splits)

lemma gen_data_negative:
  assumes "d < 0"
  shows "gen_data ops d g = (Inl NegativeDimensions :: 'e error + trial_data \<times> 'g)"
  using assms by (simp add: gen_data_def normal_size_def)

section \<open>The coefficient vector\<close>

text \<open>
  With the finite floats idealised as reals, the normalised vector of a draw with a
  non-zero entry is finite and has Euclidean norm \<open>sqrt 10\<close>; what float64 rounding does
  to that norm is outside this model.
\<close>

lemma normalize_beta_norm:
  assumes "\<exists>x\<in>set b. x \<noteq> 0"
  shows "\<exists>b'. normalize_beta b = map Fin b' \<and> beta_norm b' = sqrt 10"
proof -
  have nz: "beta_norm b \<noteq> 0" using assms by (simp add: beta_norm_zero_iff)
  then have pos: "0 < beta_norm b" using beta_norm_nonneg [of b] by simp
  have n: "beta_norm (map (\<lambda>x. x / beta_norm b * sqrt SNR) b) = sqrt 10"
    using pos beta_norm_scale [of "beta_norm b" "sqrt SNR" b] by (simp add: SNR_def)
  have "normalize_beta b = map Fin (map (\<lambda>x. x / beta_norm b * sqrt SNR) b)"
    by (simp add: normalize_beta_nonzero [OF assms] comp_def)
  then show ?thesis using n by blast
qed



section \<open>The order of the draws\<close>

text \<open>
  C5, as amended.  Within a trial the draws, all from the standard normal generator, are
  made in this order: the coefficient vector, the training design matrix of shape
  (100, d), the training noise, the test noise, and last the test design matrix of shape
  (100, d).  The targets are the design matrix times the normalised coefficient vector
  plus the noise.
\<close>

theorem gen_data_draw_order:
  assumes "(gen_data ops d g :: 'e error + trial_data \<times> 'g) = Inr (ds, g')"
  shows "\<exists>b0 g1 g2 noise_train g3 noise_test g4.
      0 \<le> d \<and>
      draws (random_normal ops 0 1) (nat d) g = (b0, g1) \<and>
      beta ds = normalize_beta b0 \<and>
      draws_rows (random_normal ops 0 1) 100 (nat d) g1 = (X_train ds, g2) \<and>
      draws (random_normal ops 0 1) 100 g2 = (noise_train, g3) \<and>
      draws (random_normal ops 0 1) 100 g3 = (noise_test, g4) \<and>
      draws_rows (random_normal ops 0 1) 100 (nat d) g4 = (X_test ds, g') \<and>
      length (X_train ds) = 100 \<and> length (X_test ds) = 100 \<and>
      (\<forall>row\<in>set (X_train ds) \<union> set (X_test ds). length row = nat d) \<and>
      y_train ds = map2 fadd (dot (X_train ds) (beta ds)) (map Fin noise_train) \<and>
      y_test ds = map2 fadd (dot (X_test ds) (beta ds)) (map Fin noise_test)"
proof -
  obtain b0 g1 g2 noise_train g3 noise_test g4 where h:
      "0 \<le> d"
      "draws (random_normal ops 0 1) (nat d) g = (b0, g1)"
      "beta ds = normalize_beta b0"
      "draws_rows (random_normal ops 0 1) 100 (nat d) g1 = (X_train ds, g2)"
      "draws (random_normal ops 0 1) 100 g2 = (noise_train, g3)"
      "draws (random_normal ops 0 1) 100 g3 = (noise_test, g4)"
      "draws_rows (random_normal ops 0 1) 100 (nat d) g4 = (X_test ds, g')"
      "y_train ds = map2 fadd (dot (X_train ds) (beta ds)) (map Fin noise_train)"
      "y_test ds = map2 fadd (dot (X_test ds) (beta ds)) (map Fin noise_test)"
    using gen_data_draw_order_aux [OF assms] by blast
  have l1: "length (X_train ds) = 100" "\<forall>row\<in>set (X_train ds). length row = nat d"
    using draws_rows_shape [of "random_normal ops 0 1" 100 "nat d" g1] h(4) by simp_all
  have l2: "length (X_test ds) = 100" "\<forall>row\<in>set (X_test ds). length row = nat d"
    using draws_rows_shape [of "random_normal ops 0 1" 100 "nat d" g4] h(7) by simp_all
  show ?thesis
    using h l1 l2 by blast
qed

theorem gen_data_draw_order_witness:
  "\<exists>ds g4. (gen_data counter_ops 1 1 :: unit error + trial_data \<times> nat) = Inr (ds, 402) \<and>
     length (X_train ds) = 100 \<and> length (X_test ds) = 100 \<and>
     draws_rows (random_normal counter_ops 0 1) 100 (nat 1) g4 = (X_test ds, 402)"
proof -
  let ?ds = "fst (projr (gen_data counter_ops 1 1 :: unit error + trial_data \<times> nat))"
  have run: "(gen_data counter_ops 1 1 :: unit error + trial_data \<times> nat) = Inr (?ds, 402)"
    by (simp add: gen_data_def normal_size_def normal_size2_def
      n_train_def n_test_def draws_counter draws_rows_counter)
  from gen_data_draw_order [OF run] obtain g4 where
      "draws_rows (random_normal counter_ops 0 1) 100 (nat 1) g4 = (X_test ?ds, 402)"
      "length (X_train ?ds) = 100" "length (X_test ?ds) = 100"
    by blast
  with run show ?thesis by blast
qed

theorem gen_data_not_in_spec_order:
  "X_test (fst (projr (gen_data counter_ops 1 1 :: unit error + trial_data \<times> nat))) ! 0 ! 0 = 302
   \<and> X_test (fst (projr (gen_data_spec_order counter_ops 1 1 :: unit error + trial_data \<times> nat))) ! 0 ! 0 = 102"
  by (simp add: gen_data_def gen_data_spec_order_def normal_size_def normal_size2_def
      n_train_def n_test_def draws_counter draws_rows_counter)

section \<open>The result table and its assignments\<close>

lemma traverse_Inr_map:
  "(\<forall>x\<in>set xs. h x = Inr (k x)) \<Longrightarrow> traverse h xs = Inr (map k xs)"
  by (induction xs) simp_all

lemma traverse_Inl_all:
  "xs \<noteq> [] \<Longrightarrow> (\<forall>x\<in>set xs. h x = Inl e) \<Longrightarrow> traverse h xs = Inl e"
  by (cases xs) simp_all

lemma empty_cell_eq:
  "empty_cell n = (if n < 0 then Inl NegativeDimensions else Inr (blank n))"
  by (simp add: empty_cell_def np_empty_def blank_def)

lemma map_of_foldl_update:
  "map_of (foldl (\<lambda>d (k, v). AList.update k v d) acc kvs) = map_of acc ++ map_of (rev kvs)"
proof (induction kvs arbitrary: acc)
  case Nil
  show ?case by simp
next
  case (Cons kv kvs)
  obtain k v where kv: "kv = (k, v)" by (cases kv)
  show ?case
    by (simp add: kv Cons.IH update_conv' map_add_upd_left fun_eq_iff map_add_def split: option.splits)
qed

lemma map_of_dict_of_keys:
  "map_of (dict_of (map (\<lambda>k. (k, h k)) ks)) k = (if k \<in> set ks then Some (h k) else None)"
proof -
  have "map_of (rev (map (\<lambda>k. (k, h k)) ks)) k = (if k \<in> set ks then Some (h k) else None)"
    unfolding rev_map by (simp add: map_of_map_restrict restrict_map_def)
  then show ?thesis by (simp add: dict_of_def map_of_foldl_update)
qed

lemma init_results_eq:
  "(init_results methods n dims :: 'e error + results) =
     (if n < 0 \<and> methods \<noteq> [] \<and> dims \<noteq> [] then Inl NegativeDimensions
      else Inr (init_table methods n dims))"
proof -
  let ?inner = "traverse (\<lambda>dimension. bind_err (empty_cell n) (\<lambda>c. Inr (dimension, c))) dims
      :: 'e error + (int \<times> cell) list"
  have inner: "?inner = (if n < 0 \<and> dims \<noteq> [] then Inl NegativeDimensions
      else Inr (map (\<lambda>d. (d, blank n)) dims))"
  proof (cases "n < 0")
    case True
    show ?thesis
    proof (cases "dims = []")
      case True
      then show ?thesis by simp
    next
      case False
      have "?inner = Inl NegativeDimensions"
        by (rule traverse_Inl_all [OF False]) (simp add: empty_cell_eq True)
      then show ?thesis using True False by simp
    qed
  next
    case False
    have "?inner = Inr (map (\<lambda>d. (d, blank n)) dims)"
      by (rule traverse_Inr_map) (simp add: empty_cell_eq False)
    then show ?thesis using False by simp
  qed
  show ?thesis
  proof (cases "n < 0 \<and> dims \<noteq> []")
    case True
    show ?thesis
    proof (cases "methods = []")
      case True
      then show ?thesis by (simp add: init_results_def init_table_def)
    next
      case False
      have "traverse (\<lambda>method. bind_err ?inner (\<lambda>kvs. Inr (method, dict_of kvs))) methods
          = Inl NegativeDimensions"
        by (rule traverse_Inl_all [OF False]) (simp add: inner True)
      then show ?thesis using True False by (simp add: init_results_def)
    qed
  next
    case False
    have "traverse (\<lambda>method. bind_err ?inner (\<lambda>kvs. Inr (method, dict_of kvs))) methods
        = Inr (map (\<lambda>m. (m, dict_of (map (\<lambda>d. (d, blank n)) dims))) methods)"
    proof (rule traverse_Inr_map)
      have "?inner = Inr (map (\<lambda>d. (d, blank n)) dims)"
        using inner False by (simp only: if_False)
      then show "\<forall>x\<in>set methods. bind_err ?inner (\<lambda>kvs. Inr (x, dict_of kvs))
          = Inr (x, dict_of (map (\<lambda>d. (d, blank n)) dims))"
        by simp
    qed
    moreover have "\<not> (n < 0 \<and> methods \<noteq> [] \<and> dims \<noteq> [])" using False by blast
    ultimately show ?thesis by (simp add: init_results_def init_table_def)
  qed
qed

lemma cell_at_init_table:
  "cell_at (init_table methods n dims) m d =
     (if m \<in> set methods \<and> d \<in> set dims then Some (blank n) else None)"
  by (simp add: cell_at_def init_table_def map_of_dict_of_keys)

lemma cell_at_update:
  "map_of res m = Some inner \<Longrightarrow>
   cell_at (AList.update m (AList.update d c inner) res) m' d' =
     (if m' = m \<and> d' = d then Some c else cell_at res m' d')"
  by (simp add: cell_at_def update_conv')

lemma set_coverage_Inr:
  "set_coverage res m d t v = (Inr res' :: 'e error + results) \<Longrightarrow>
   \<exists>c. cell_at res m d = Some c \<and> t < length (coverage c) \<and>
     cell_at res' = (\<lambda>m' d'. if m' = m \<and> d' = d
        then Some (c\<lparr> coverage := (coverage c)[t := Some v] \<rparr>) else cell_at res m' d')"
proof -
  assume a: "set_coverage res m d t v = (Inr res' :: 'e error + results)"
  then obtain inner c where h: "map_of res m = Some inner" "map_of inner d = Some c"
      "t < length (coverage c)"
      "res' = AList.update m (AList.update d (c\<lparr> coverage := (coverage c)[t := Some v] \<rparr>) inner) res"
    by (auto simp: set_coverage_def split: option.splits if_splits)
  have "cell_at res m d = Some c" using h(1,2) by (simp add: cell_at_def)
  then show ?thesis using h(3) unfolding h(4) by (auto simp: cell_at_update [OF h(1)] fun_eq_iff)
qed

lemma set_width_mean_Inr:
  "set_width_mean res m d t v = (Inr res' :: 'e error + results) \<Longrightarrow>
   \<exists>c. cell_at res m d = Some c \<and> t < length (width_mean c) \<and>
     cell_at res' = (\<lambda>m' d'. if m' = m \<and> d' = d
        then Some (c\<lparr> width_mean := (width_mean c)[t := Some v] \<rparr>) else cell_at res m' d')"
proof -
  assume a: "set_width_mean res m d t v = (Inr res' :: 'e error + results)"
  then obtain inner c where h: "map_of res m = Some inner" "map_of inner d = Some c"
      "t < length (width_mean c)"
      "res' = AList.update m (AList.update d (c\<lparr> width_mean := (width_mean c)[t := Some v] \<rparr>) inner) res"
    by (auto simp: set_width_mean_def split: option.splits if_splits)
  have "cell_at res m d = Some c" using h(1,2) by (simp add: cell_at_def)
  then show ?thesis using h(3) unfolding h(4) by (auto simp: cell_at_update [OF h(1)] fun_eq_iff)
qed

lemma set_coverage_ok:
  "cell_at res m d = Some c \<Longrightarrow> t < length (coverage c) \<Longrightarrow>
   \<exists>res'. set_coverage res m d t v = (Inr res' :: 'e error + results)"
  by (auto simp: set_coverage_def cell_at_def split: option.splits)

lemma set_width_mean_ok:
  "cell_at res m d = Some c \<Longrightarrow> t < length (width_mean c) \<Longrightarrow>
   \<exists>res'. set_width_mean res m d t v = (Inr res' :: 'e error + results)"
  by (auto simp: set_width_mean_def cell_at_def split: option.splits)

lemma record_trial_Inr:
  assumes "record_trial res ((m, d, t), (cv, wd)) = (Inr res' :: 'e error + results)"
  shows "\<exists>c. cell_at res m d = Some c \<and> t < length (coverage c) \<and> t < length (width_mean c) \<and>
     cell_at res' = (\<lambda>m' d'. if m' = m \<and> d' = d
        then Some \<lparr> coverage = (coverage c)[t := Some cv], width_mean = (width_mean c)[t := Some wd] \<rparr>
        else cell_at res m' d')"
proof -
  from assms obtain res1 where
      a: "set_coverage res m d t cv = (Inr res1 :: 'e error + results)"
      and b: "set_width_mean res1 m d t wd = (Inr res' :: 'e error + results)"
    by (auto simp: record_trial_def bind_err_eq_Inr)
  from set_coverage_Inr [OF a] obtain c where c: "cell_at res m d = Some c" "t < length (coverage c)"
    "cell_at res1 = (\<lambda>m' d'. if m' = m \<and> d' = d
        then Some (c\<lparr> coverage := (coverage c)[t := Some cv] \<rparr>) else cell_at res m' d')"
    by blast
  from set_width_mean_Inr [OF b] obtain c1 where c1: "cell_at res1 m d = Some c1" "t < length (width_mean c1)"
    "cell_at res' = (\<lambda>m' d'. if m' = m \<and> d' = d
        then Some (c1\<lparr> width_mean := (width_mean c1)[t := Some wd] \<rparr>) else cell_at res1 m' d')"
    by blast
  have c1eq: "c1 = c\<lparr> coverage := (coverage c)[t := Some cv] \<rparr>"
    using c(3) c1(1) by simp
  show ?thesis
    using c(1,2) c1(2) unfolding c1(3) c(3) c1eq by (auto simp: fun_eq_iff)
qed

lemma record_trial_ok:
  assumes "cell_at res m d = Some c" "t < length (coverage c)" "t < length (width_mean c)"
  shows "\<exists>res'. record_trial res ((m, d, t), (cv, wd)) = (Inr res' :: 'e error + results)"
proof -
  obtain res1 where a: "set_coverage res m d t cv = (Inr res1 :: 'e error + results)"
    using set_coverage_ok [OF assms(1,2)] by blast
  from set_coverage_Inr [OF a] assms(1) have
    "cell_at res1 m d = Some (c\<lparr> coverage := (coverage c)[t := Some cv] \<rparr>)" by auto
  from set_width_mean_ok [OF this] assms(3)
  obtain res' where "set_width_mean res1 m d t wd = (Inr res' :: 'e error + results)" by auto
  with a show ?thesis by (auto simp: record_trial_def)
qed


lemma method_loop_Cons:
  "method_loop est alpha ds d t (m # ms) res =
     bind_err (fit_scores est alpha ds m) (\<lambda>sc.
       bind_err (record_trial res ((m, d, t), sc)) (method_loop est alpha ds d t ms))"
  by (auto simp: fit_scores_def record_trial_def bind_err_def split: sum.splits)

section \<open>The assignments of a run\<close>

lemma run_writes_append:
  "(run_writes res (xs @ ys) :: 'e error + results) = bind_err (run_writes res xs) (\<lambda>r. run_writes r ys)"
  by (induction xs arbitrary: res) (auto simp: bind_err_def split: sum.splits)

lemma method_loop_trace:
  assumes "method_loop est alpha ds d t ms res = (Inr res' :: 'e error + results)"
  shows "(\<forall>m\<in>set ms. \<exists>sc. fit_scores est alpha ds m = (Inr sc :: 'e error + np_float \<times> np_float)) \<and>
     run_writes res (map (\<lambda>m. ((m, d, t), projr (fit_scores est alpha ds m))) ms) = (Inr res' :: 'e error + results)"
  using assms
proof (induction ms arbitrary: res)
  case Nil
  then show ?case by simp
next
  case (Cons m ms)
  from Cons.prems obtain sc res1 where
      sc: "fit_scores est alpha ds m = (Inr sc :: 'e error + np_float \<times> np_float)"
      and r1: "record_trial res ((m, d, t), sc) = (Inr res1 :: 'e error + results)"
      and rest: "method_loop est alpha ds d t ms res1 = (Inr res' :: 'e error + results)"
    unfolding method_loop_Cons by (auto simp: bind_err_eq_Inr)
  from Cons.IH [OF rest] sc r1 show ?case by simp
qed

lemma trial_body_trace:
  assumes "trial_body ops est alpha ms d t (res, g) = (Inr (res', g') :: 'e error + results \<times> 'g)"
  shows "\<exists>ds. gen_data ops d g = (Inr (ds, g') :: 'e error + trial_data \<times> 'g) \<and>
     (\<forall>m\<in>set ms. \<exists>sc. fit_scores est alpha ds m = (Inr sc :: 'e error + np_float \<times> np_float)) \<and>
     run_writes res (map (\<lambda>m. ((m, d, t), projr (fit_scores est alpha ds m))) ms) = (Inr res' :: 'e error + results)"
proof -
  from assms obtain ds where
      gd: "gen_data ops d g = (Inr (ds, g') :: 'e error + trial_data \<times> 'g)"
      and ml: "method_loop est alpha ds d t ms res = (Inr res' :: 'e error + results)"
    by (auto simp: trial_body_def bind_err_eq_Inr split: prod.splits)
  from method_loop_trace [OF ml] gd show ?thesis by blast
qed

lemma trial_body_trace_ex:
  assumes "trial_body ops est alpha ms d t (res, g) = (Inr (res', g') :: 'e error + results \<times> 'g)"
  shows "\<exists>tr. map fst tr = map (\<lambda>m. (m, d, t)) ms \<and> run_writes res tr = (Inr res' :: 'e error + results) \<and>
     (\<forall>w\<in>set tr. drawn_score ops (est :: 'e estimator) alpha w)"
proof -
  from trial_body_trace [OF assms] obtain ds where
      gd: "gen_data ops d g = (Inr (ds, g') :: 'e error + trial_data \<times> 'g)"
      and sc: "\<forall>m\<in>set ms. \<exists>sc. fit_scores est alpha ds m = (Inr sc :: 'e error + np_float \<times> np_float)"
      and rw: "run_writes res (map (\<lambda>m. ((m, d, t), projr (fit_scores est alpha ds m))) ms) = (Inr res' :: 'e error + results)"
    by blast
  let ?tr = "map (\<lambda>m. ((m, d, t), projr (fit_scores est alpha ds m))) ms"
  have "map fst ?tr = map (\<lambda>m. (m, d, t)) ms" by simp
  moreover have "\<forall>w\<in>set ?tr. drawn_score ops (est :: 'e estimator) alpha w"
    using gd sc by (fastforce simp: drawn_score_def)
  ultimately show ?thesis using rw by blast
qed

lemma trial_loop_trace:
  assumes "trial_loop ops est alpha ms d ts (res, g) = (Inr (res', g') :: 'e error + results \<times> 'g)"
  shows "\<exists>tr. map fst tr = concat (map (\<lambda>t. map (\<lambda>m. (m, d, t)) ms) ts) \<and>
     run_writes res tr = (Inr res' :: 'e error + results) \<and> (\<forall>w\<in>set tr. drawn_score ops (est :: 'e estimator) alpha w)"
  using assms
proof (induction ts arbitrary: res g)
  case Nil
  then show ?case by simp
next
  case (Cons t ts)
  from Cons.prems obtain res1 g1 where
      b: "trial_body ops est alpha ms d t (res, g) = (Inr (res1, g1) :: 'e error + results \<times> 'g)"
      and rest: "trial_loop ops est alpha ms d ts (res1, g1) = (Inr (res', g') :: 'e error + results \<times> 'g)"
    by (auto simp: bind_err_eq_Inr)
  from trial_body_trace_ex [OF b] obtain tr1 where tr1:
      "map fst tr1 = map (\<lambda>m. (m, d, t)) ms" "run_writes res tr1 = (Inr res1 :: 'e error + results)"
      "\<forall>w\<in>set tr1. drawn_score ops (est :: 'e estimator) alpha w"
    by blast
  from Cons.IH [OF rest] obtain tr2 where tr2:
      "map fst tr2 = concat (map (\<lambda>t. map (\<lambda>m. (m, d, t)) ms) ts)" "run_writes res1 tr2 = (Inr res' :: 'e error + results)"
      "\<forall>w\<in>set tr2. drawn_score ops (est :: 'e estimator) alpha w"
    by blast
  have "map fst (tr1 @ tr2) = concat (map (\<lambda>t. map (\<lambda>m. (m, d, t)) ms) (t # ts))"
    using tr1(1) tr2(1) by simp
  moreover have "run_writes res (tr1 @ tr2) = (Inr res' :: 'e error + results)"
    using tr1(2) tr2(2) by (simp add: run_writes_append)
  moreover have "\<forall>w\<in>set (tr1 @ tr2). drawn_score ops (est :: 'e estimator) alpha w"
    using tr1(3) tr2(3) by auto
  ultimately show ?case by blast
qed

lemma dimension_loop_trace:
  assumes "dimension_loop ops est alpha ms n ds (res, g) = (Inr (res', g') :: 'e error + results \<times> 'g)"
  shows "\<exists>tr. map fst tr = writes ms n ds \<and>
     run_writes res tr = (Inr res' :: 'e error + results) \<and> (\<forall>w\<in>set tr. drawn_score ops (est :: 'e estimator) alpha w)"
  using assms
proof (induction ds arbitrary: res g)
  case Nil
  then show ?case by (simp add: writes_def)
next
  case (Cons d ds)
  from Cons.prems obtain res1 g1 where
      b: "trial_loop ops est alpha ms d (range_py n) (res, g) = (Inr (res1, g1) :: 'e error + results \<times> 'g)"
      and rest: "dimension_loop ops est alpha ms n ds (res1, g1) = (Inr (res', g') :: 'e error + results \<times> 'g)"
    by (auto simp: bind_err_eq_Inr)
  from trial_loop_trace [OF b] obtain tr1 where tr1:
      "map fst tr1 = concat (map (\<lambda>t. map (\<lambda>m. (m, d, t)) ms) (range_py n))"
      "run_writes res tr1 = (Inr res1 :: 'e error + results)"
      "\<forall>w\<in>set tr1. drawn_score ops (est :: 'e estimator) alpha w"
    by blast
  from Cons.IH [OF rest] obtain tr2 where tr2:
      "map fst tr2 = writes ms n ds" "run_writes res1 tr2 = (Inr res' :: 'e error + results)"
      "\<forall>w\<in>set tr2. drawn_score ops (est :: 'e estimator) alpha w"
    by blast
  have "map fst (tr1 @ tr2) = writes ms n (d # ds)"
    using tr1(1) tr2(1) by (simp add: writes_def)
  moreover have "run_writes res (tr1 @ tr2) = (Inr res' :: 'e error + results)"
    using tr1(2) tr2(2) by (simp add: run_writes_append)
  moreover have "\<forall>w\<in>set (tr1 @ tr2). drawn_score ops (est :: 'e estimator) alpha w"
    using tr1(3) tr2(3) by auto
  ultimately show ?case by blast
qed

lemma PIs_trace:
  assumes "PIs_vs_dimensions ops est ms alpha n ds g = (Inr (res, g') :: 'e error + results \<times> 'g)"
  shows "\<exists>tr. map fst tr = writes ms n ds \<and>
     run_writes (init_table ms n ds) tr = (Inr res :: 'e error + results) \<and> (\<forall>w\<in>set tr. drawn_score ops (est :: 'e estimator) alpha w)"
proof -
  from assms have "dimension_loop ops est alpha ms n ds (init_table ms n ds, g) = (Inr (res, g') :: 'e error + results \<times> 'g)"
    by (auto simp: PIs_vs_dimensions_def init_results_eq bind_err_eq_Inr split: if_splits)
  from dimension_loop_trace [OF this] show ?thesis .
qed

lemma run_writes_cell:
  assumes "run_writes res tr = (Inr res' :: 'e error + results)"
    and "cell_at res m d = Some c"
  shows "\<exists>c'. cell_at res' m d = Some c' \<and>
     length (coverage c') = length (coverage c) \<and>
     length (width_mean c') = length (width_mean c) \<and>
     (\<forall>t. (m, d, t) \<in> fst ` set tr \<longrightarrow>
        t < length (coverage c) \<and> t < length (width_mean c) \<and>
        (\<exists>cv wd. ((m, d, t), (cv, wd)) \<in> set tr \<and>
           coverage c' ! t = Some cv \<and> width_mean c' ! t = Some wd)) \<and>
     (\<forall>t. (m, d, t) \<notin> fst ` set tr \<longrightarrow>
        coverage c' ! t = coverage c ! t \<and> width_mean c' ! t = width_mean c ! t)"
  using assms
proof (induction tr arbitrary: res c)
  case Nil
  then show ?case by simp
next
  case (Cons w tr)
  obtain m0 d0 t0 cv0 wd0 where w: "w = ((m0, d0, t0), (cv0, wd0))"
    by (metis prod.collapse)
  from Cons.prems(1) obtain res1 where
      r1: "record_trial res ((m0, d0, t0), (cv0, wd0)) = (Inr res1 :: 'e error + results)"
      and rest: "run_writes res1 tr = (Inr res' :: 'e error + results)"
    by (auto simp: w bind_err_eq_Inr)
  from record_trial_Inr [OF r1] obtain c0 where c0:
      "cell_at res m0 d0 = Some c0" "t0 < length (coverage c0)" "t0 < length (width_mean c0)"
      "cell_at res1 = (\<lambda>m' d'. if m' = m0 \<and> d' = d0
        then Some \<lparr> coverage = (coverage c0)[t0 := Some cv0], width_mean = (width_mean c0)[t0 := Some wd0] \<rparr>
        else cell_at res m' d')"
    by blast
  show ?case
  proof (cases "m = m0 \<and> d = d0")
    case False
    then have c1: "cell_at res1 m d = Some c" using c0(4) Cons.prems(2) by auto
    from Cons.IH [OF rest c1] obtain c' where c':
        "cell_at res' m d = Some c'"
        "length (coverage c') = length (coverage c)"
        "length (width_mean c') = length (width_mean c)"
        "\<forall>t. (m, d, t) \<in> fst ` set tr \<longrightarrow>
          t < length (coverage c) \<and> t < length (width_mean c) \<and>
          (\<exists>cv wd. ((m, d, t), (cv, wd)) \<in> set tr \<and>
             coverage c' ! t = Some cv \<and> width_mean c' ! t = Some wd)"
        "\<forall>t. (m, d, t) \<notin> fst ` set tr \<longrightarrow>
          coverage c' ! t = coverage c ! t \<and> width_mean c' ! t = width_mean c ! t"
      by blast
    have same: "\<And>t. (m, d, t) \<in> fst ` set (w # tr) \<longleftrightarrow> (m, d, t) \<in> fst ` set tr"
      using False by (auto simp: w)
    show ?thesis
      using c' unfolding same by (auto simp: w)
  next
    case True
    then have eq: "m0 = m" "d0 = d" by simp_all
    have cc: "c0 = c" using c0(1) Cons.prems(2) eq by simp
    let ?c1 = "\<lparr> coverage = (coverage c)[t0 := Some cv0], width_mean = (width_mean c)[t0 := Some wd0] \<rparr>"
    have c1: "cell_at res1 m d = Some ?c1" using c0(4) eq cc by simp
    from Cons.IH [OF rest c1] obtain c' where c':
        "cell_at res' m d = Some c'"
        "length (coverage c') = length (coverage c)"
        "length (width_mean c') = length (width_mean c)"
        "\<forall>t. (m, d, t) \<in> fst ` set tr \<longrightarrow>
          t < length (coverage c) \<and> t < length (width_mean c) \<and>
          (\<exists>cv wd. ((m, d, t), (cv, wd)) \<in> set tr \<and>
             coverage c' ! t = Some cv \<and> width_mean c' ! t = Some wd)"
        "\<forall>t. (m, d, t) \<notin> fst ` set tr \<longrightarrow>
          coverage c' ! t = (coverage c)[t0 := Some cv0] ! t \<and>
          width_mean c' ! t = (width_mean c)[t0 := Some wd0] ! t"
      by auto
    have in_iff: "\<And>t. (m, d, t) \<in> fst ` set (w # tr) \<longleftrightarrow> t = t0 \<or> (m, d, t) \<in> fst ` set tr"
      using eq by (auto simp: w)
    have a: "\<forall>t. (m, d, t) \<in> fst ` set (w # tr) \<longrightarrow>
        t < length (coverage c) \<and> t < length (width_mean c) \<and>
        (\<exists>cv wd. ((m, d, t), (cv, wd)) \<in> set (w # tr) \<and>
           coverage c' ! t = Some cv \<and> width_mean c' ! t = Some wd)"
    proof (intro allI impI)
      fix t
      assume "(m, d, t) \<in> fst ` set (w # tr)"
      then consider "(m, d, t) \<in> fst ` set tr" | "t = t0" "(m, d, t) \<notin> fst ` set tr"
        unfolding in_iff by blast
      then show "t < length (coverage c) \<and> t < length (width_mean c) \<and>
        (\<exists>cv wd. ((m, d, t), (cv, wd)) \<in> set (w # tr) \<and>
           coverage c' ! t = Some cv \<and> width_mean c' ! t = Some wd)"
      proof cases
        case 1
        with c'(4) show ?thesis by auto
      next
        case 2
        have "coverage c' ! t0 = Some cv0" "width_mean c' ! t0 = Some wd0"
          using c'(5) 2 c0(2,3) cc by simp_all
        then show ?thesis using 2(1) c0(2,3) cc eq by (auto simp: w)
      qed
    qed
    have b: "\<forall>t. (m, d, t) \<notin> fst ` set (w # tr) \<longrightarrow>
        coverage c' ! t = coverage c ! t \<and> width_mean c' ! t = width_mean c ! t"
      unfolding in_iff using c'(5) by auto
    show ?thesis using c'(1,2,3) a b by blast
  qed
qed

lemma count_list_concat_map:
  "count_list (concat (map h xs)) y = sum_list (map (\<lambda>x. count_list (h x) y) xs)"
  by (induction xs) simp_all

lemma count_list_map_inj_pair:
  "count_list (map (\<lambda>m. (m, d, t)) ms) (m', d', t') =
     (if d' = d \<and> t' = t then count_list ms m' else 0)"
  by (induction ms) auto

lemma sum_list_map_if_eq:
  "sum_list (map (\<lambda>x. if y = x then (c::nat) else 0) xs) = count_list xs y * c"
  by (induction xs) auto

lemma count_list_upt: "count_list [0 ..< n] t = (if t < n then 1 else 0)"
  by (induction n) auto

lemma count_list_writes:
  "count_list (writes ms n ds) (m, d, t) =
     count_list ds d * (if t < nat n then count_list ms m else 0)"
proof -
  have inner: "count_list (concat (map (\<lambda>trial. map (\<lambda>method. (method, d0, trial)) ms) (range_py n))) (m, d, t)
      = (if d = d0 then (if t < nat n then count_list ms m else 0) else 0)" for d0
  proof -
    have "count_list (concat (map (\<lambda>trial. map (\<lambda>method. (method, d0, trial)) ms) (range_py n))) (m, d, t)
        = sum_list (map (\<lambda>trial. if d = d0 \<and> t = trial then count_list ms m else 0) (range_py n))"
      by (simp add: count_list_concat_map count_list_map_inj_pair)
    also have "\<dots> = (if d = d0 then sum_list (map (\<lambda>trial. if t = trial then count_list ms m else 0) (range_py n)) else 0)"
      by simp
    also have "\<dots> = (if d = d0 then (if t < nat n then count_list ms m else 0) else 0)"
      by (simp add: sum_list_map_if_eq range_py_def count_list_upt)
    finally show ?thesis .
  qed
  show ?thesis
  proof (induction ds)
    case Nil
    show ?case by (simp add: writes_def)
  next
    case (Cons d0 ds)
    have "writes ms n (d0 # ds) =
        concat (map (\<lambda>trial. map (\<lambda>method. (method, d0, trial)) ms) (range_py n)) @ writes ms n ds"
      by (simp add: writes_def)
    then show ?case using Cons.IH by (simp add: inner)
  qed
qed

lemma count_list_distinct: "distinct xs \<Longrightarrow> x \<in> set xs \<Longrightarrow> count_list xs x = 1"
  by (induction xs) (auto simp: count_list_0_iff)

lemma set_writes:
  "set (writes ms n ds) = {(m, d, t). m \<in> set ms \<and> d \<in> set ds \<and> t < nat n}"
  by (auto simp: writes_def range_py_def image_iff)

section \<open>Coverage and width of a fit\<close>

lemma sum_list_indicator:
  "sum_list (map (\<lambda>b. if b then 1 else 0 :: real) bs) = real (length (filter id bs))"
  by (induction bs) simp_all

lemma fsum_Fin: "fsum (map Fin xs) = Fin (sum_list xs)"
  by (induction xs) (simp_all add: fsum_def)

lemma fmean_Fin:
  "fmean (map Fin xs) = (if xs = [] then NaN else Fin (sum_list xs / real (length xs)))"
  by (simp add: fmean_def fsum_Fin)

lemma mean_bool_eq:
  "mean_bool bs =
     (if bs = [] then NaN else Fin (real (length (filter id bs)) / real (length bs)))"
proof -
  have m: "map (\<lambda>b. if b then Fin 1 else Fin 0) bs = map Fin (map (\<lambda>b. if b then 1 else 0) bs)"
    by (induction bs) simp_all
  show ?thesis
    unfolding mean_bool_def m fmean_Fin by (simp add: sum_list_indicator)
qed




lemma broadcast2_same_length:
  "length xs = length ys \<Longrightarrow> (broadcast2 h xs ys :: 'e error + 'c list) = Inr (map2 h xs ys)"
  by (simp add: broadcast2_def)

lemma coverage_of_same_length:
  assumes "length rows = length yt"
  shows "(coverage_of rows yt :: 'e error + np_float) =
     Inr (if yt = [] then NaN
      else Fin (real (card {i. i < length yt \<and> fle (fst (snd (rows ! i))) (yt ! i)
                                \<and> fle (yt ! i) (snd (snd (rows ! i)))})
             / real (length yt)))"
proof -
  let ?below = "map2 fle (col1 rows) yt"
  let ?above = "map2 (\<lambda>u y. fle y u) (col2 rows) yt"
  let ?bs = "map2 (\<and>) ?below ?above"
  have len: "length ?bs = length yt" using assms by (simp add: col1_def col2_def)
  have nth: "?bs ! i = (fle (fst (snd (rows ! i))) (yt ! i) \<and> fle (yt ! i) (snd (snd (rows ! i))))"
    if "i < length yt" for i
    using that assms by (simp add: col1_def col2_def)
  have "length (filter id ?bs) = card {i. i < length ?bs \<and> ?bs ! i}"
    by (simp add: length_filter_conv_card)
  also have "{i. i < length ?bs \<and> ?bs ! i} =
      {i. i < length yt \<and> fle (fst (snd (rows ! i))) (yt ! i) \<and> fle (yt ! i) (snd (snd (rows ! i)))}"
    unfolding len using nth by blast
  finally have cnt: "length (filter id ?bs) =
      card {i. i < length yt \<and> fle (fst (snd (rows ! i))) (yt ! i) \<and> fle (yt ! i) (snd (snd (rows ! i)))}" .
  have empty: "?bs = [] \<longleftrightarrow> yt = []" using len by (metis length_0_conv)
  have "(coverage_of rows yt :: 'e error + np_float) = Inr (mean_bool ?bs)"
    using assms by (simp add: coverage_of_def broadcast2_same_length col1_def col2_def)
  also have "mean_bool ?bs = (if ?bs = [] then NaN
      else Fin (real (length (filter id ?bs)) / real (length ?bs)))"
    by (rule mean_bool_eq)
  finally show ?thesis unfolding cnt empty len .
qed

lemma map2_same: "map2 h (map a xs) (map b xs) = map (\<lambda>x. h (a x) (b x)) xs"
  by (induction xs) simp_all

lemma width_mean_of_eq:
  "(width_mean_of rows :: 'e error + np_float) =
     Inr (fmean (map (\<lambda>r. fsub (snd (snd r)) (fst (snd r))) rows))"
  by (simp add: width_mean_of_def broadcast2_same_length col1_def col2_def map2_same)



lemma gen_data_lengths:
  assumes "(gen_data ops d g :: 'e error + trial_data \<times> 'g) = Inr (ds, g')"
  shows "length (X_train ds) = 100 \<and> length (y_train ds) = 100 \<and>
     length (X_test ds) = 100 \<and> length (y_test ds) = 100"
proof -
  from gen_data_draw_order_aux [OF assms] obtain g1 g2 noise_train noise_test g3 g4 where h:
      "draws_rows (random_normal ops 0 1) 100 (nat d) g1 = (X_train ds, g2)"
      "draws (random_normal ops 0 1) 100 g2 = (noise_train, g3)"
      "draws (random_normal ops 0 1) 100 g3 = (noise_test, g4)"
      "draws_rows (random_normal ops 0 1) 100 (nat d) g4 = (X_test ds, g')"
      "y_train ds = map2 fadd (dot (X_train ds) (beta ds)) (map Fin noise_train)"
      "y_test ds = map2 fadd (dot (X_test ds) (beta ds)) (map Fin noise_test)"
    by blast
  have "length noise_train = 100" using length_draws [of "random_normal ops 0 1" 100 g2] h(2) by simp
  moreover have "length noise_test = 100" using length_draws [of "random_normal ops 0 1" 100 g3] h(3) by simp
  moreover have "length (X_train ds) = 100"
    using draws_rows_shape [of "random_normal ops 0 1" 100 "nat d" g1] h(1) by simp
  moreover have "length (X_test ds) = 100"
    using draws_rows_shape [of "random_normal ops 0 1" 100 "nat d" g4] h(4) by simp
  ultimately show ?thesis unfolding h(5,6) by (simp add: dot_def)
qed

lemma fit_scores_Inr:
  assumes "fit_scores est alpha ds m = (Inr (cv, wd) :: 'e error + np_float \<times> np_float)"
  shows "\<exists>rows. est m alpha (X_train ds) (y_train ds) (X_test ds) = Inr rows \<and>
     (coverage_of rows (y_test ds) :: 'e error + np_float) = Inr cv \<and>
     (width_mean_of rows :: 'e error + np_float) = Inr wd"
  using assms by (auto simp: fit_scores_def bind_err_eq_Inr split: sum.splits)

section \<open>Runs that complete\<close>

lemma record_trial_shape:
  assumes "record_trial res ((m, d, t), sc) = (Inr res' :: 'e error + results)"
  shows "shape_of res' = shape_of res"
proof -
  obtain cv wd where sc: "sc = (cv, wd)" by (cases sc)
  from record_trial_Inr [OF assms [unfolded sc]] obtain c where c:
      "cell_at res m d = Some c" "t < length (coverage c)" "t < length (width_mean c)"
      "cell_at res' = (\<lambda>m' d'. if m' = m \<and> d' = d
        then Some \<lparr> coverage = (coverage c)[t := Some cv], width_mean = (width_mean c)[t := Some wd] \<rparr>
        else cell_at res m' d')"
    by blast
  show ?thesis
    by (auto simp: shape_of_def fun_eq_iff c(1,4))
qed

lemma record_trial_ok_shape:
  assumes "shape_of res m d = Some (a, b)" "t < a" "t < b"
  shows "\<exists>res'. record_trial res ((m, d, t), sc) = (Inr res' :: 'e error + results)"
proof -
  obtain cv wd where sc: "sc = (cv, wd)" by (cases sc)
  from assms obtain c where "cell_at res m d = Some c" "t < length (coverage c)" "t < length (width_mean c)"
    by (auto simp: shape_of_def)
  from record_trial_ok [OF this] show ?thesis unfolding sc by blast
qed

lemma method_loop_ok:
  assumes "\<forall>m\<in>set ms. \<exists>a b. shape_of res m d = Some (a, b) \<and> t < a \<and> t < b"
    and "\<forall>m\<in>set ms. \<exists>sc. fit_scores est alpha ds m = (Inr sc :: 'e error + np_float \<times> np_float)"
  shows "\<exists>res'. method_loop est alpha ds d t ms res = (Inr res' :: 'e error + results) \<and>
     shape_of res' = shape_of res"
  using assms
proof (induction ms arbitrary: res)
  case Nil
  then show ?case by simp
next
  case (Cons m ms)
  from Cons.prems(2) obtain sc where sc: "fit_scores est alpha ds m = (Inr sc :: 'e error + np_float \<times> np_float)"
    by auto
  from Cons.prems(1) obtain a b where ab: "shape_of res m d = Some (a, b)" "t < a" "t < b"
    by auto
  from record_trial_ok_shape [OF ab] obtain res1 where
      r1: "record_trial res ((m, d, t), sc) = (Inr res1 :: 'e error + results)"
    by blast
  have sh: "shape_of res1 = shape_of res" by (rule record_trial_shape [OF r1])
  have "\<exists>res'. method_loop est alpha ds d t ms res1 = (Inr res' :: 'e error + results) \<and>
     shape_of res' = shape_of res1"
    by (rule Cons.IH) (use Cons.prems sh in auto)
  then show ?case using sc r1 sh by (auto simp: method_loop_Cons simp del: method_loop.simps)
qed

lemma trial_loop_ok:
  assumes "I g"
    and "\<And>g. I g \<Longrightarrow> \<exists>dat g'. gen_data ops d g = (Inr (dat, g') :: 'e error + trial_data \<times> 'g) \<and> I g'"
    and "\<And>g dat g' m. gen_data ops d g = (Inr (dat, g') :: 'e error + trial_data \<times> 'g) \<Longrightarrow> m \<in> set ms \<Longrightarrow>
           \<exists>sc. fit_scores est alpha dat m = (Inr sc :: 'e error + np_float \<times> np_float)"
    and "\<forall>m\<in>set ms. \<forall>t\<in>set ts. \<exists>a b. shape_of res m d = Some (a, b) \<and> t < a \<and> t < b"
  shows "\<exists>res' g'. trial_loop ops est alpha ms d ts (res, g) = (Inr (res', g') :: 'e error + results \<times> 'g)
     \<and> shape_of res' = shape_of res \<and> I g'"
  using assms(1,4)
proof (induction ts arbitrary: res g)
  case Nil
  then show ?case by simp
next
  case (Cons t ts)
  from assms(2) [OF Cons.prems(1)] obtain dat g1 where
      gd: "gen_data ops d g = (Inr (dat, g1) :: 'e error + trial_data \<times> 'g)" and i1: "I g1"
    by blast
  have fits: "\<forall>m\<in>set ms. \<exists>sc. fit_scores est alpha dat m = (Inr sc :: 'e error + np_float \<times> np_float)"
    using assms(3) [OF gd] by blast
  have shp: "\<forall>m\<in>set ms. \<exists>a b. shape_of res m d = Some (a, b) \<and> t < a \<and> t < b"
    using Cons.prems(2) by auto
  from method_loop_ok [OF shp fits] obtain res1 where
      ml: "method_loop est alpha dat d t ms res = (Inr res1 :: 'e error + results)"
      and sh: "shape_of res1 = shape_of res"
    by blast
  have tb: "trial_body ops est alpha ms d t (res, g) = (Inr (res1, g1) :: 'e error + results \<times> 'g)"
    using gd ml by (simp add: trial_body_def)
  have "\<exists>res' g'. trial_loop ops est alpha ms d ts (res1, g1) = (Inr (res', g') :: 'e error + results \<times> 'g)
     \<and> shape_of res' = shape_of res1 \<and> I g'"
    by (rule Cons.IH [OF i1]) (use Cons.prems(2) sh in auto)
  then show ?case using tb sh by auto
qed

lemma dimension_loop_ok:
  assumes "I g"
    and "\<And>d g. d \<in> set ds \<Longrightarrow> I g \<Longrightarrow>
           \<exists>dat g'. gen_data ops d g = (Inr (dat, g') :: 'e error + trial_data \<times> 'g) \<and> I g'"
    and "\<And>d g dat g' m. d \<in> set ds \<Longrightarrow>
           gen_data ops d g = (Inr (dat, g') :: 'e error + trial_data \<times> 'g) \<Longrightarrow> m \<in> set ms \<Longrightarrow>
           \<exists>sc. fit_scores est alpha dat m = (Inr sc :: 'e error + np_float \<times> np_float)"
    and "\<forall>m\<in>set ms. \<forall>d\<in>set ds. \<exists>a b. shape_of res m d = Some (a, b) \<and> nat n \<le> a \<and> nat n \<le> b"
  shows "\<exists>res' g'. dimension_loop ops est alpha ms n ds (res, g) = (Inr (res', g') :: 'e error + results \<times> 'g)
     \<and> shape_of res' = shape_of res \<and> I g'"
  using assms
proof (induction ds arbitrary: res g)
  case Nil
  then show ?case by simp
next
  case (Cons d ds)
  have shp: "\<forall>m\<in>set ms. \<forall>t\<in>set (range_py n). \<exists>a b. shape_of res m d = Some (a, b) \<and> t < a \<and> t < b"
    using Cons.prems(4) by (fastforce simp: range_py_def)
  have "\<exists>res' g'. trial_loop ops est alpha ms d (range_py n) (res, g) = (Inr (res', g') :: 'e error + results \<times> 'g)
     \<and> shape_of res' = shape_of res \<and> I g'"
  proof (rule trial_loop_ok [where I = I, OF Cons.prems(1) _ _ shp])
    show "\<exists>dat g'. gen_data ops d g = (Inr (dat, g') :: 'e error + trial_data \<times> 'g) \<and> I g'" if "I g" for g
      using Cons.prems(2) [of d g] that by simp
    show "\<exists>sc. fit_scores est alpha dat m = (Inr sc :: 'e error + np_float \<times> np_float)"
      if "gen_data ops d g = (Inr (dat, g') :: 'e error + trial_data \<times> 'g)" "m \<in> set ms" for g dat g' m
      using Cons.prems(3) [of d g dat g' m] that by simp
  qed
  then obtain res1 g1 where
      tl: "trial_loop ops est alpha ms d (range_py n) (res, g) = (Inr (res1, g1) :: 'e error + results \<times> 'g)"
      and sh: "shape_of res1 = shape_of res" and i1: "I g1"
    by blast
  have "\<exists>res' g'. dimension_loop ops est alpha ms n ds (res1, g1) = (Inr (res', g') :: 'e error + results \<times> 'g)
     \<and> shape_of res' = shape_of res1 \<and> I g'"
  proof (rule Cons.IH [OF i1])
    show "\<exists>dat g'. gen_data ops d g = (Inr (dat, g') :: 'e error + trial_data \<times> 'g) \<and> I g'"
      if "d \<in> set ds" "I g" for d g
      using Cons.prems(2) [of d g] that by simp
    show "\<exists>sc. fit_scores est alpha dat m = (Inr sc :: 'e error + np_float \<times> np_float)"
      if "d \<in> set ds" "gen_data ops d g = (Inr (dat, g') :: 'e error + trial_data \<times> 'g)" "m \<in> set ms"
      for d g dat g' m
      using Cons.prems(3) [of d g dat g' m] that by simp
    show "\<forall>m\<in>set ms. \<forall>d\<in>set ds. \<exists>a b. shape_of res1 m d = Some (a, b) \<and> nat n \<le> a \<and> nat n \<le> b"
      using Cons.prems(4) sh by simp
  qed
  then show ?case using tl sh by auto
qed

lemma shape_of_init_table:
  "shape_of (init_table ms n ds) m d =
     (if m \<in> set ms \<and> d \<in> set ds then Some (nat n, nat n) else None)"
  by (simp add: shape_of_def cell_at_init_table blank_def)

lemma PIs_completes:
  assumes "I g"
    and "\<And>d g. d \<in> set ds \<Longrightarrow> I g \<Longrightarrow>
           \<exists>dat g'. gen_data ops d g = (Inr (dat, g') :: 'e error + trial_data \<times> 'g) \<and> I g'"
    and "\<And>d g dat g' m. d \<in> set ds \<Longrightarrow>
           gen_data ops d g = (Inr (dat, g') :: 'e error + trial_data \<times> 'g) \<Longrightarrow> m \<in> set ms \<Longrightarrow>
           \<exists>sc. fit_scores est alpha dat m = (Inr sc :: 'e error + np_float \<times> np_float)"
    and "0 \<le> n \<or> ms = [] \<or> ds = []"
  shows "\<exists>res g'. PIs_vs_dimensions ops est ms alpha n ds g = (Inr (res, g') :: 'e error + results \<times> 'g) \<and> I g'"
proof -
  have init: "(init_results ms n ds :: 'e error + results) = Inr (init_table ms n ds)"
    using assms(4) by (auto simp: init_results_eq)
  have shp: "\<forall>m\<in>set ms. \<forall>d\<in>set ds. \<exists>a b. shape_of (init_table ms n ds) m d = Some (a, b) \<and> nat n \<le> a \<and> nat n \<le> b"
    by (simp add: shape_of_init_table)
  have "\<exists>res' g'. dimension_loop ops est alpha ms n ds (init_table ms n ds, g)
        = (Inr (res', g') :: 'e error + results \<times> 'g)
     \<and> shape_of res' = shape_of (init_table ms n ds) \<and> I g'"
  proof (rule dimension_loop_ok [where I = I, OF assms(1) _ _ shp])
    show "\<exists>dat g'. gen_data ops d g = (Inr (dat, g') :: 'e error + trial_data \<times> 'g) \<and> I g'"
      if "d \<in> set ds" "I g" for d g
      using assms(2) [of d g] that by simp
    show "\<exists>sc. fit_scores est alpha dat m = (Inr sc :: 'e error + np_float \<times> np_float)"
      if "d \<in> set ds" "gen_data ops d g = (Inr (dat, g') :: 'e error + trial_data \<times> 'g)" "m \<in> set ms"
      for d g dat g' m
      using assms(3) [of d g dat g' m] that by simp
  qed
  then show ?thesis by (auto simp: PIs_vs_dimensions_def init)
qed

lemma fit_scores_rows_ok:
  assumes "est m alpha (X_train dat) (y_train dat) (X_test dat) = Inr rows"
    and "length rows = length (y_test dat)"
  shows "\<exists>cv wd. fit_scores est alpha dat m = (Inr (cv, wd) :: 'e error + np_float \<times> np_float) \<and>
     (coverage_of rows (y_test dat) :: 'e error + np_float) = Inr cv \<and>
     (width_mean_of rows :: 'e error + np_float) = Inr wd"
proof -
  obtain cv where cv: "(coverage_of rows (y_test dat) :: 'e error + np_float) = Inr cv"
    by (simp add: coverage_of_same_length [OF assms(2)])
  obtain wd where wd: "(width_mean_of rows :: 'e error + np_float) = Inr wd"
    by (simp add: width_mean_of_eq)
  show ?thesis
    by (simp add: fit_scores_def assms(1) cv wd)
qed

lemma fit_scores_const_ok:
  assumes "(gen_data ops d g :: unit error + trial_data \<times> 'g) = Inr (dat, g')"
  shows "\<exists>sc. fit_scores (est_const row) alpha dat m = (Inr sc :: unit error + np_float \<times> np_float)"
proof -
  have l: "length (X_test dat) = 100" "length (y_test dat) = 100"
    using gen_data_lengths [OF assms] by simp_all
  have "\<exists>cv wd. fit_scores (est_const row) alpha dat m = (Inr (cv, wd) :: unit error + np_float \<times> np_float) \<and>
     (coverage_of (map (\<lambda>x. row) (X_test dat)) (y_test dat) :: unit error + np_float) = Inr cv \<and>
     (width_mean_of (map (\<lambda>x. row) (X_test dat)) :: unit error + np_float) = Inr wd"
    by (rule fit_scores_rows_ok) (use l in \<open>auto simp: est_const_def\<close>)
  then show ?thesis by blast
qed

lemma PIs_counter_const_completes:
  assumes "\<forall>d\<in>set ds. 0 \<le> d" "0 \<le> n"
  shows "\<exists>res g'. PIs_vs_dimensions counter_ops (est_const row) ms alpha n ds g
      = (Inr (res, g') :: unit error + results \<times> nat)"
proof -
  have "\<exists>res g'. PIs_vs_dimensions counter_ops (est_const row) ms alpha n ds g
      = (Inr (res, g') :: unit error + results \<times> nat) \<and> True"
  proof (rule PIs_completes [where I = "\<lambda>g. True"])
    show "True" by simp
    show "\<exists>dat g'. gen_data counter_ops d g = (Inr (dat, g') :: unit error + trial_data \<times> nat) \<and> True"
      if "d \<in> set ds" "True" for d g
      using gen_data_ok [of d counter_ops g] that assms(1) by simp
    show "\<exists>sc. fit_scores (est_const row) alpha dat m = (Inr sc :: unit error + np_float \<times> np_float)"
      if "gen_data counter_ops d g = (Inr (dat, g') :: unit error + trial_data \<times> nat)" for d g dat g' m
      using fit_scores_const_ok [OF that] .
    show "0 \<le> n \<or> ms = [] \<or> ds = []" using assms(2) by simp
  qed
  then show ?thesis by blast
qed

section \<open>The cells of a returned table\<close>

lemma run_writes_written_exists:
  assumes "run_writes res tr = (Inr res' :: 'e error + results)"
    and "(m, d, t) \<in> fst ` set tr"
  shows "cell_at res m d \<noteq> None"
  using assms
proof (induction tr arbitrary: res)
  case Nil
  then show ?case by simp
next
  case (Cons w tr)
  obtain m0 d0 t0 cv0 wd0 where w: "w = ((m0, d0, t0), (cv0, wd0))"
    by (metis prod.collapse)
  from Cons.prems(1) obtain res1 where
      r1: "record_trial res ((m0, d0, t0), (cv0, wd0)) = (Inr res1 :: 'e error + results)"
      and rest: "run_writes res1 tr = (Inr res' :: 'e error + results)"
    by (auto simp: w bind_err_eq_Inr)
  from record_trial_Inr [OF r1] obtain c0 where c0:
      "cell_at res m0 d0 = Some c0"
      "cell_at res1 = (\<lambda>m' d'. if m' = m0 \<and> d' = d0
        then Some \<lparr> coverage = (coverage c0)[t0 := Some cv0], width_mean = (width_mean c0)[t0 := Some wd0] \<rparr>
        else cell_at res m' d')"
    by blast
  show ?case
  proof (cases "(m, d) = (m0, d0)")
    case True
    then show ?thesis using c0(1) by simp
  next
    case False
    then have "(m, d, t) \<in> fst ` set tr" using Cons.prems(2) by (auto simp: w)
    from Cons.IH [OF rest this] have "cell_at res1 m d \<noteq> None" .
    then show ?thesis using False unfolding c0(2) by (auto split: if_splits)
  qed
qed


lemma PIs_cells:
  assumes run: "PIs_vs_dimensions ops est ms alpha n ds g = (Inr (res, g') :: 'e error + results \<times> 'g)"
    and m: "m \<in> set ms" and d: "d \<in> set ds"
  shows "\<exists>c. cell_at res m d = Some c \<and>
     length (coverage c) = nat n \<and> length (width_mean c) = nat n \<and>
     (\<forall>t<nat n. \<exists>cv wd. coverage c ! t = Some cv \<and> width_mean c ! t = Some wd \<and>
        drawn_score ops est alpha ((m, d, t), (cv, wd)))"
proof -
  from PIs_trace [OF run] obtain tr where tr:
      "map fst tr = writes ms n ds"
      "run_writes (init_table ms n ds) tr = (Inr res :: 'e error + results)"
      "\<forall>w\<in>set tr. drawn_score ops est alpha w"
    by blast
  have keys: "fst ` set tr = set (writes ms n ds)"
    using tr(1) by (metis set_map)
  have init: "cell_at (init_table ms n ds) m d = Some (blank n)"
    using m d by (simp add: cell_at_init_table)
  from run_writes_cell [OF tr(2) init] obtain c where c:
      "cell_at res m d = Some c"
      "length (coverage c) = length (coverage (blank n))"
      "length (width_mean c) = length (width_mean (blank n))"
      "\<forall>t. (m, d, t) \<in> fst ` set tr \<longrightarrow>
         (\<exists>cv wd. ((m, d, t), (cv, wd)) \<in> set tr \<and>
            coverage c ! t = Some cv \<and> width_mean c ! t = Some wd)"
    by blast
  have "\<exists>cv wd. coverage c ! t = Some cv \<and> width_mean c ! t = Some wd \<and>
        drawn_score ops est alpha ((m, d, t), (cv, wd))" if "t < nat n" for t
  proof -
    have "(m, d, t) \<in> fst ` set tr"
      unfolding keys set_writes using m d that by simp
    with c(4) obtain cv wd where "((m, d, t), (cv, wd)) \<in> set tr"
        "coverage c ! t = Some cv" "width_mean c ! t = Some wd"
      by blast
    with tr(3) show ?thesis by blast
  qed
  then show ?thesis using c(1,2,3) by (simp add: blank_def)
qed


lemma PIs_nonneg_trials:
  assumes run: "PIs_vs_dimensions ops est ms alpha n ds g = (Inr (res, g') :: 'e error + results \<times> 'g)"
    and "m \<in> set ms" "d \<in> set ds"
  shows "0 \<le> n"
proof (rule ccontr)
  assume "\<not> 0 \<le> n"
  then have "(init_results ms n ds :: 'e error + results) = Inl NegativeDimensions"
    using assms(2,3) by (auto simp: init_results_eq)
  then show False using run by (simp add: PIs_vs_dimensions_def)
qed

lemma sum_list_map_const: "sum_list (map (\<lambda>x. c) xs) = real (length xs) * c"
  by (induction xs) (simp_all add: algebra_simps)

lemma width_mean_of_const:
  assumes "xs \<noteq> []"
  shows "(width_mean_of (map (\<lambda>x. (p, Fin lo, Fin up)) xs) :: 'e error + np_float) = Inr (Fin (up - lo))"
proof -
  have m: "map (\<lambda>x. fsub (Fin up) (Fin lo)) xs = map Fin (map (\<lambda>x. up - lo) xs)"
    by (simp add: fsub_def)
  have "(width_mean_of (map (\<lambda>x. (p, Fin lo, Fin up)) xs) :: 'e error + np_float)
      = Inr (fmean (map (\<lambda>x. fsub (Fin up) (Fin lo)) xs))"
    by (simp add: width_mean_of_eq comp_def)
  also have "fmean (map (\<lambda>x. fsub (Fin up) (Fin lo)) xs) = Fin (up - lo)"
    unfolding m fmean_Fin using assms by (simp add: sum_list_map_const)
  finally show ?thesis .
qed

lemma singleton_nth: "length xs = 1 \<Longrightarrow> xs = [xs ! 0]"
  by (cases xs) simp_all


section \<open>Shape of the returned table\<close>

text \<open>
  C1, as amended.  When a call of the harness returns, the table holds under every
  (method, dimension) of the call a coverage array and a width array of length exactly
  \<open>n_trial\<close> with no entry left unassigned; the table is the initial table after the
  assignments of \<open>writes\<close>, in that order; every index below \<open>n_trial\<close> is assigned once
  for each occurrence of the method in \<open>methods\<close> and of the dimension in
  \<open>dimensions\<close>, so exactly once when neither list repeats an element.
\<close>

theorem result_arrays_have_n_trial_entries:
  assumes run: "PIs_vs_dimensions ops est methods alpha n_trial dimensions g
      = (Inr (res, g') :: 'e error + results \<times> 'g)"
    and m: "method \<in> set methods" and d: "dimension \<in> set dimensions"
  shows "\<exists>c. cell_at res method dimension = Some c \<and>
     int (length (coverage c)) = n_trial \<and> int (length (width_mean c)) = n_trial \<and>
     (\<forall>t<nat n_trial. coverage c ! t \<noteq> None \<and> width_mean c ! t \<noteq> None) \<and>
     (\<exists>tr. map fst tr = writes methods n_trial dimensions \<and>
        run_writes (init_table methods n_trial dimensions) tr = (Inr res :: 'e error + results)) \<and>
     (\<forall>t<nat n_trial. count_list (writes methods n_trial dimensions) (method, dimension, t)
        = count_list dimensions dimension * count_list methods method) \<and>
     (distinct methods \<and> distinct dimensions \<longrightarrow>
        (\<forall>t<nat n_trial. count_list (writes methods n_trial dimensions) (method, dimension, t) = 1))"
proof -
  have n: "0 \<le> n_trial" by (rule PIs_nonneg_trials [OF run m d])
  from PIs_cells [OF run m d] obtain c where c:
      "cell_at res method dimension = Some c"
      "length (coverage c) = nat n_trial" "length (width_mean c) = nat n_trial"
      "\<forall>t<nat n_trial. \<exists>cv wd. coverage c ! t = Some cv \<and> width_mean c ! t = Some wd \<and>
        drawn_score ops est alpha ((method, dimension, t), (cv, wd))"
    by blast
  have full: "\<forall>t<nat n_trial. coverage c ! t \<noteq> None \<and> width_mean c ! t \<noteq> None"
    using c(4) by fastforce
  from PIs_trace [OF run] have tr: "\<exists>tr. map fst tr = writes methods n_trial dimensions \<and>
        run_writes (init_table methods n_trial dimensions) tr = (Inr res :: 'e error + results)"
    by blast
  have cnt: "\<forall>t<nat n_trial. count_list (writes methods n_trial dimensions) (method, dimension, t)
        = count_list dimensions dimension * count_list methods method"
    by (simp add: count_list_writes)
  have one: "\<forall>t<nat n_trial. count_list (writes methods n_trial dimensions) (method, dimension, t) = 1"
    if "distinct methods" "distinct dimensions"
    using cnt count_list_distinct [OF that(1) m] count_list_distinct [OF that(2) d] by simp
  show ?thesis
    using c(1,2,3) n full tr cnt one by auto
qed

theorem result_arrays_have_n_trial_entries_witness:
  "\<exists>c. cell_at (fst (projr (PIs_vs_dimensions counter_ops (est_const (Fin 0, Fin 0, Fin 1)) [''naive''] (1 / 10) 1 [5] 1)))
          ''naive'' 5 = Some c \<and>
     length (coverage c) = 1 \<and> length (width_mean c) = 1 \<and>
     coverage c ! 0 \<noteq> None \<and> width_mean c ! 0 \<noteq> None \<and>
     count_list (writes [''naive''] 1 [5]) (''naive'', 5, 0) = 1"
proof -
  let ?run = "PIs_vs_dimensions counter_ops (est_const (Fin 0, Fin 0, Fin 1)) [''naive''] (1 / 10) 1 [5] 1
      :: unit error + results \<times> nat"
  have "\<exists>res g'. ?run = Inr (res, g')"
    by (rule PIs_counter_const_completes) simp_all
  then have run: "?run = Inr (fst (projr ?run), snd (projr ?run))" by auto
  show ?thesis
    using result_arrays_have_n_trial_entries [OF run, of "''naive''" 5] by auto
qed

theorem duplicate_dimension_written_twice:
  "\<not> isl (PIs_vs_dimensions counter_ops (est_const (Fin 0, Fin 0, Fin 1)) [''naive''] (1 / 10) 1 [5, 5] 1)
   \<and> count_list (writes [''naive''] 1 [5, 5]) (''naive'', 5, 0) = 2"
proof -
  let ?run = "PIs_vs_dimensions counter_ops (est_const (Fin 0, Fin 0, Fin 1)) [''naive''] (1 / 10) 1 [5, 5] 1
      :: unit error + results \<times> nat"
  have "\<exists>res g'. ?run = Inr (res, g')"
    by (rule PIs_counter_const_completes) simp_all
  then have "\<not> isl ?run" by auto
  then show ?thesis by (simp add: count_list_writes)
qed


section \<open>Range of the recorded values\<close>


lemma fsum_NaN: "NaN \<in> set xs \<Longrightarrow> fsum xs = NaN"
proof (induction xs)
  case Nil
  then show ?case by simp
next
  case (Cons x xs)
  have r: "fadd y NaN = NaN" for y by (cases y) simp_all
  show ?case using Cons by (auto simp: fsum_def r)
qed




text \<open>
  The bounds have to be finite: an estimator whose rows have both bounds at infinity meets
  lower \<open>\<le>\<close> upper, and the width stored is \<open>inf - inf\<close>, that is \<open>nan\<close>.
\<close>

lemma infinite_bounds_width_mean_nan:
  "\<not> isl (PIs_vs_dimensions counter_ops (est_const (Fin 0, PInf, PInf)) [''naive''] (1 / 10) 1 [1] 1)
   \<and> fle PInf PInf
   \<and> map_option width_mean
       (cell_at (fst (projr (PIs_vs_dimensions counter_ops (est_const (Fin 0, PInf, PInf)) [''naive''] (1 / 10) 1 [1] 1)))
          ''naive'' 1) = Some [Some NaN]"
proof -
  let ?run = "PIs_vs_dimensions counter_ops (est_const (Fin 0, PInf, PInf)) [''naive''] (1 / 10) 1 [1] 1
      :: unit error + results \<times> nat"
  have ex: "\<exists>res g'. ?run = Inr (res, g')"
    by (rule PIs_counter_const_completes) simp_all
  then have run: "?run = Inr (fst (projr ?run), snd (projr ?run))" by auto
  have a: "\<not> isl ?run" using ex by auto
  from PIs_cells [OF run, of "''naive''" 1] obtain c cv wd where
      c: "cell_at (fst (projr ?run)) ''naive'' 1 = Some c" "length (width_mean c) = 1"
        "width_mean c ! 0 = Some wd"
        "drawn_score counter_ops (est_const (Fin 0, PInf, PInf)) (1 / 10) ((''naive'', 1, 0), (cv, wd))"
    by fastforce
  from c(4) obtain g0 dat g1 where
      gd: "gen_data counter_ops 1 g0 = (Inr (dat, g1) :: unit error + trial_data \<times> nat)"
      and fs: "fit_scores (est_const (Fin 0, PInf, PInf)) (1 / 10) dat ''naive''
        = (Inr (cv, wd) :: unit error + np_float \<times> np_float)"
    by (auto simp: drawn_score_def)
  have ne: "X_test dat \<noteq> []" using gen_data_lengths [OF gd] by auto
  from fit_scores_Inr [OF fs]
  have "(width_mean_of (map (\<lambda>x. (Fin 0, PInf, PInf)) (X_test dat)) :: unit error + np_float) = Inr wd"
    by (auto simp: est_const_def)
  then have wd: "wd = fmean (map (\<lambda>x. NaN) (X_test dat))"
    by (simp add: width_mean_of_eq comp_def fsub_def)
  have "NaN \<in> set (map (\<lambda>x. NaN) (X_test dat))" using ne by (cases "X_test dat") simp_all
  from fsum_NaN [OF this] have "wd = NaN" unfolding wd fmean_def by simp
  then have w: "width_mean c = [Some NaN]"
    using singleton_nth [OF c(2)] c(3) by simp
  have b: "map_option width_mean (cell_at (fst (projr ?run)) ''naive'' 1) = Some [Some NaN]"
    unfolding c(1) using w by simp
  have f: "fle PInf PInf" by simp
  show ?thesis by (intro conjI a b f)
qed

section \<open>What a cell records\<close>

text \<open>
  C2.  With an estimator that returns one row for each test point, every cell
  (method, dimension, trial) of a returned table holds the scores of the method on a
  dataset drawn at that dimension: the coverage is the number of the 100 test points
  whose target lies between the lower and the upper bound (columns 1 and 2 of the
  prediction, bounds included, both comparisons being those of numpy) divided by 100,
  and the width is the sum of upper bound minus lower bound over the 100 test points
  divided by 100.
\<close>

theorem recorded_scores_are_coverage_and_mean_width:
  assumes run: "PIs_vs_dimensions ops est methods alpha n_trial dimensions g
      = (Inr (res, g') :: 'e error + results \<times> 'g)"
    and m: "method \<in> set methods" and d: "dimension \<in> set dimensions" and t: "trial < nat n_trial"
    and rows_per_point: "\<forall>m a Xtr ytr Xte rows. est m a Xtr ytr Xte = Inr rows \<longrightarrow> length rows = length Xte"
  shows "\<exists>c g0 dat g1 y_preds.
     cell_at res method dimension = Some c \<and>
     gen_data ops dimension g0 = (Inr (dat, g1) :: 'e error + trial_data \<times> 'g) \<and>
     est method alpha (X_train dat) (y_train dat) (X_test dat) = Inr y_preds \<and>
     length y_preds = 100 \<and> length (y_test dat) = 100 \<and>
     coverage c ! trial = Some (Fin (real (card {i. i < 100 \<and>
         fle (fst (snd (y_preds ! i))) (y_test dat ! i) \<and> fle (y_test dat ! i) (snd (snd (y_preds ! i)))}) / 100)) \<and>
     width_mean c ! trial = Some (fdiv
         (fsum (map (\<lambda>i. fsub (snd (snd (y_preds ! i))) (fst (snd (y_preds ! i)))) [0 ..< 100]))
         (Fin 100))"
proof -
  from PIs_cells [OF run m d] t obtain c cv wd where c:
      "cell_at res method dimension = Some c"
      "coverage c ! trial = Some cv" "width_mean c ! trial = Some wd"
      "drawn_score ops est alpha ((method, dimension, trial), (cv, wd))"
    by blast
  from c(4) obtain g0 dat g1 where
      gd: "gen_data ops dimension g0 = (Inr (dat, g1) :: 'e error + trial_data \<times> 'g)"
      and fs: "fit_scores est alpha dat method = (Inr (cv, wd) :: 'e error + np_float \<times> np_float)"
    by (auto simp: drawn_score_def)
  from fit_scores_Inr [OF fs] obtain y_preds where yp:
      "est method alpha (X_train dat) (y_train dat) (X_test dat) = Inr y_preds"
      "(coverage_of y_preds (y_test dat) :: 'e error + np_float) = Inr cv"
      "(width_mean_of y_preds :: 'e error + np_float) = Inr wd"
    by blast
  have l: "length (X_test dat) = 100" "length (y_test dat) = 100"
    using gen_data_lengths [OF gd] by simp_all
  have ly: "length y_preds = 100" using rows_per_point yp(1) l(1) by fastforce
  have len: "length y_preds = length (y_test dat)" using ly l(2) by simp
  have cv: "cv = Fin (real (card {i. i < 100 \<and>
         fle (fst (snd (y_preds ! i))) (y_test dat ! i) \<and> fle (y_test dat ! i) (snd (snd (y_preds ! i)))}) / 100)"
    using yp(2) l(2) unfolding coverage_of_same_length [OF len] by (auto split: if_splits)
  have "map (\<lambda>r. fsub (snd (snd r)) (fst (snd r))) y_preds
      = map (\<lambda>r. fsub (snd (snd r)) (fst (snd r))) (map ((!) y_preds) [0 ..< length y_preds])"
    by (simp only: map_nth)
  then have mp: "map (\<lambda>r. fsub (snd (snd r)) (fst (snd r))) y_preds
      = map (\<lambda>i. fsub (snd (snd (y_preds ! i))) (fst (snd (y_preds ! i)))) [0 ..< 100]"
    unfolding ly by (simp add: comp_def)
  have wd: "wd = fdiv
         (fsum (map (\<lambda>i. fsub (snd (snd (y_preds ! i))) (fst (snd (y_preds ! i)))) [0 ..< 100]))
         (Fin 100)"
    using yp(3) ly unfolding width_mean_of_eq fmean_def mp by simp
  show ?thesis
    using c(1) gd yp(1) ly l(2) c(2,3) unfolding cv wd by blast
qed

theorem recorded_scores_are_coverage_and_mean_width_witness:
  "\<exists>c g0 dat g1 y_preds.
     cell_at (fst (projr (PIs_vs_dimensions counter_ops (est_const (Fin 0, Fin 0, Fin 1)) [''naive''] (1 / 10) 1 [5] 1)))
       ''naive'' 5 = Some c \<and>
     gen_data counter_ops 5 g0 = (Inr (dat, g1) :: unit error + trial_data \<times> nat) \<and>
     est_const (Fin 0, Fin 0, Fin 1) ''naive'' (1 / 10) (X_train dat) (y_train dat) (X_test dat) = Inr y_preds \<and>
     length y_preds = 100 \<and> length (y_test dat) = 100 \<and>
     coverage c ! 0 = Some (Fin (real (card {i. i < 100 \<and>
         fle (fst (snd (y_preds ! i))) (y_test dat ! i) \<and> fle (y_test dat ! i) (snd (snd (y_preds ! i)))}) / 100)) \<and>
     width_mean c ! 0 = Some (fdiv
         (fsum (map (\<lambda>i. fsub (snd (snd (y_preds ! i))) (fst (snd (y_preds ! i)))) [0 ..< 100]))
         (Fin 100))"
proof -
  let ?run = "PIs_vs_dimensions counter_ops (est_const (Fin 0, Fin 0, Fin 1)) [''naive''] (1 / 10) 1 [5] 1
      :: unit error + results \<times> nat"
  have "\<exists>res g'. ?run = Inr (res, g')"
    by (rule PIs_counter_const_completes) simp_all
  then have run: "?run = Inr (fst (projr ?run), snd (projr ?run))" by auto
  have rows: "\<forall>m a Xtr ytr Xte rows. est_const (Fin 0, Fin 0, Fin 1) m a Xtr ytr Xte = Inr rows \<longrightarrow> length rows = length Xte"
    by (auto simp: est_const_def)
  show ?thesis
    by (rule recorded_scores_are_coverage_and_mean_width [OF run _ _ _ rows]) simp_all
qed

section \<open>One dataset for all methods of a trial\<close>

lemma trial_loop_single:
  "trial_loop ops est alpha ms d [t] st = trial_body ops est alpha ms d t st"
  by (cases "trial_body ops est alpha ms d t st") simp_all

lemma trial_body_counter_const_ok:
  assumes "0 \<le> d"
    and "\<forall>m\<in>set ms. \<exists>a b. shape_of res m d = Some (a, b) \<and> t < a \<and> t < b"
  shows "\<exists>res' g'. trial_body counter_ops (est_const row) alpha ms d t (res, g)
      = (Inr (res', g') :: unit error + results \<times> nat)"
proof -
  have "\<exists>res' g'. trial_loop counter_ops (est_const row) alpha ms d [t] (res, g)
        = (Inr (res', g') :: unit error + results \<times> nat)
     \<and> shape_of res' = shape_of res \<and> True"
  proof (rule trial_loop_ok [where I = "\<lambda>g. True"])
    show "True" by simp
    show "\<exists>dat g'. gen_data counter_ops d g = (Inr (dat, g') :: unit error + trial_data \<times> nat) \<and> True"
      if "True" for g
      using gen_data_ok [OF assms(1), of counter_ops g] by simp
    show "\<exists>sc. fit_scores (est_const row) alpha dat m = (Inr sc :: unit error + np_float \<times> np_float)"
      if "gen_data counter_ops d g = (Inr (dat, g') :: unit error + trial_data \<times> nat)" for g dat g' m
      using fit_scores_const_ok [OF that] .
    show "\<forall>m\<in>set ms. \<forall>t\<in>set [t]. \<exists>a b. shape_of res m d = Some (a, b) \<and> t < a \<and> t < b"
      using assms(2) by simp
  qed
  then show ?thesis unfolding trial_loop_single by blast
qed

lemma trial_body_scores:
  assumes run: "trial_body ops est alpha methods dimension trial (res, g)
      = (Inr (res', g') :: 'e error + results \<times> 'g)"
  shows "\<exists>dat. gen_data ops dimension g = (Inr (dat, g') :: 'e error + trial_data \<times> 'g) \<and>
     method_loop est alpha dat dimension trial methods res = (Inr res' :: 'e error + results) \<and>
     (\<forall>method\<in>set methods. \<exists>y_preds cov wid c.
        est method alpha (X_train dat) (y_train dat) (X_test dat) = Inr y_preds \<and>
        (coverage_of y_preds (y_test dat) :: 'e error + np_float) = Inr cov \<and>
        (width_mean_of y_preds :: 'e error + np_float) = Inr wid \<and>
        cell_at res' method dimension = Some c \<and>
        coverage c ! trial = Some cov \<and> width_mean c ! trial = Some wid)"
proof -
  from run obtain dat where
      gd: "gen_data ops dimension g = (Inr (dat, g') :: 'e error + trial_data \<times> 'g)"
      and ml: "method_loop est alpha dat dimension trial methods res = (Inr res' :: 'e error + results)"
    by (auto simp: trial_body_def bind_err_eq_Inr split: prod.splits)
  let ?tr = "map (\<lambda>m. ((m, dimension, trial), projr (fit_scores est alpha dat m :: 'e error + np_float \<times> np_float))) methods"
  from method_loop_trace [OF ml] have
      fits: "\<forall>m\<in>set methods. \<exists>sc. fit_scores est alpha dat m = (Inr sc :: 'e error + np_float \<times> np_float)"
      and rw: "run_writes res ?tr = (Inr res' :: 'e error + results)"
    by simp_all
  have "\<exists>y_preds cov wid c.
        est m alpha (X_train dat) (y_train dat) (X_test dat) = Inr y_preds \<and>
        (coverage_of y_preds (y_test dat) :: 'e error + np_float) = Inr cov \<and>
        (width_mean_of y_preds :: 'e error + np_float) = Inr wid \<and>
        cell_at res' m dimension = Some c \<and>
        coverage c ! trial = Some cov \<and> width_mean c ! trial = Some wid"
    if m: "m \<in> set methods" for m
  proof -
    have key: "(m, dimension, trial) \<in> fst ` set ?tr" using m by force
    from run_writes_written_exists [OF rw key] obtain c0 where c0: "cell_at res m dimension = Some c0"
      by auto
    from run_writes_cell [OF rw c0] key obtain c cv wd where c:
        "cell_at res' m dimension = Some c" "((m, dimension, trial), (cv, wd)) \<in> set ?tr"
        "coverage c ! trial = Some cv" "width_mean c ! trial = Some wd"
      by blast
    from fits m obtain sc where sc: "fit_scores est alpha dat m = (Inr sc :: 'e error + np_float \<times> np_float)"
      by blast
    from c(2) have "(cv, wd) = projr (fit_scores est alpha dat m :: 'e error + np_float \<times> np_float)"
      by auto
    then have "fit_scores est alpha dat m = (Inr (cv, wd) :: 'e error + np_float \<times> np_float)"
      using sc by simp
    from fit_scores_Inr [OF this] c(1,3,4) show ?thesis by blast
  qed
  then show ?thesis using gd ml by blast
qed

text \<open>
  C9.  A trial that completes has drawn one dataset from the generator, before the loop
  over the methods; the loop draws nothing more, and every requested method is fitted
  on that dataset's training part and scored on its test part: the cell of each method
  at this dimension and trial holds the coverage and the width of that method's
  prediction on the shared dataset.
\<close>

theorem methods_share_the_trial_dataset:
  assumes run: "trial_body ops est alpha methods dimension trial (res, g)
      = (Inr (res', g') :: 'e error + results \<times> 'g)"
  shows "\<exists>dat. gen_data ops dimension g = (Inr (dat, g') :: 'e error + trial_data \<times> 'g) \<and>
     method_loop est alpha dat dimension trial methods res = (Inr res' :: 'e error + results) \<and>
     (\<forall>method\<in>set methods. \<exists>y_preds cov wid c.
        est method alpha (X_train dat) (y_train dat) (X_test dat) = Inr y_preds \<and>
        (coverage_of y_preds (y_test dat) :: 'e error + np_float) = Inr cov \<and>
        (width_mean_of y_preds :: 'e error + np_float) = Inr wid \<and>
        cell_at res' method dimension = Some c \<and>
        coverage c ! trial = Some cov \<and> width_mean c ! trial = Some wid)"
  using run by (rule trial_body_scores)

theorem methods_share_the_trial_dataset_witness:
  "\<exists>dat. gen_data counter_ops 5 1
       = (Inr (dat, snd (projr (trial_body counter_ops (est_const (Fin 0, Fin 0, Fin 1)) (1 / 10) [''naive'', ''cv''] 5 0
            (init_table [''naive'', ''cv''] 1 [5], 1) :: unit error + results \<times> nat)))
          :: unit error + trial_data \<times> nat) \<and>
     (\<forall>method\<in>set [''naive'', ''cv'']. \<exists>y_preds cov wid c.
        est_const (Fin 0, Fin 0, Fin 1) method (1 / 10) (X_train dat) (y_train dat) (X_test dat) = Inr y_preds \<and>
        (coverage_of y_preds (y_test dat) :: unit error + np_float) = Inr cov \<and>
        (width_mean_of y_preds :: unit error + np_float) = Inr wid \<and>
        cell_at (fst (projr (trial_body counter_ops (est_const (Fin 0, Fin 0, Fin 1)) (1 / 10) [''naive'', ''cv''] 5 0
            (init_table [''naive'', ''cv''] 1 [5], 1) :: unit error + results \<times> nat))) method 5 = Some c \<and>
        coverage c ! 0 = Some cov \<and> width_mean c ! 0 = Some wid)"
proof -
  let ?tb = "trial_body counter_ops (est_const (Fin 0, Fin 0, Fin 1)) (1 / 10) [''naive'', ''cv''] 5 0
            (init_table [''naive'', ''cv''] 1 [5], 1) :: unit error + results \<times> nat"
  have "\<exists>res' g'. ?tb = Inr (res', g')"
    by (rule trial_body_counter_const_ok) (simp_all add: shape_of_init_table)
  then have run: "?tb = Inr (fst (projr ?tb), snd (projr ?tb))" by auto
  from methods_share_the_trial_dataset [OF run] show ?thesis by blast
qed

section \<open>Exceptions end the run\<close>

lemma fold_err_append:
  "fold_err step (xs @ ys) st = bind_err (fold_err step xs st) (fold_err step ys)"
  by (induction xs arbitrary: st) (auto simp: bind_err_def split: sum.splits)

lemma fold_err_map: "fold_err step (map h xs) st = fold_err (\<lambda>x. step (h x)) xs st"
  by (induction xs arbitrary: st) (auto simp: bind_err_def split: sum.splits)

lemma fold_err_Inl_iff:
  "fold_err step xs st = Inl e \<longleftrightarrow>
     (\<exists>xs1 x xs2 st1. xs = xs1 @ x # xs2 \<and> fold_err step xs1 st = Inr st1 \<and> step x st1 = Inl e)"
proof
  assume "fold_err step xs st = Inl e"
  then show "\<exists>xs1 x xs2 st1. xs = xs1 @ x # xs2 \<and> fold_err step xs1 st = Inr st1 \<and> step x st1 = Inl e"
  proof (induction xs arbitrary: st)
    case Nil
    then show ?case by simp
  next
    case (Cons x xs)
    show ?case
    proof (cases "step x st")
      case (Inl e')
      then have "step x st = Inl e" using Cons.prems by simp
      then have "x # xs = [] @ x # xs \<and> fold_err step [] st = Inr st \<and> step x st = Inl e" by simp
      then show ?thesis by blast
    next
      case (Inr st1)
      then have "fold_err step xs st1 = Inl e" using Cons.prems by simp
      from Cons.IH [OF this] obtain xs1 y xs2 st2 where
          h: "xs = xs1 @ y # xs2" "fold_err step xs1 st1 = Inr st2" "step y st2 = Inl e"
        by blast
      have "x # xs = (x # xs1) @ y # xs2 \<and> fold_err step (x # xs1) st = Inr st2 \<and> step y st2 = Inl e"
        using h Inr by simp
      then show ?thesis by blast
    qed
  qed
next
  assume "\<exists>xs1 x xs2 st1. xs = xs1 @ x # xs2 \<and> fold_err step xs1 st = Inr st1 \<and> step x st1 = Inl e"
  then show "fold_err step xs st = Inl e"
    by (auto simp: fold_err_append)
qed

lemma method_loop_Cons_bind:
  "method_loop est alpha dat d t (m # ms) res =
     bind_err (method_loop est alpha dat d t [m] res) (method_loop est alpha dat d t ms)"
  by (auto simp: bind_err_def split: sum.splits)

lemma method_loop_fold:
  "method_loop est alpha dat d t ms res =
     fold_err (\<lambda>m. method_loop est alpha dat d t [m]) ms res"
proof (induction ms arbitrary: res)
  case Nil
  show ?case by simp
next
  case (Cons m ms)
  have f: "method_loop est alpha dat d t ms = fold_err (\<lambda>m. method_loop est alpha dat d t [m]) ms"
    using Cons.IH by blast
  show ?case
    by (subst method_loop_Cons_bind) (simp only: fold_err.simps f)
qed

lemma trial_loop_fold:
  "trial_loop ops est alpha ms d ts st = fold_err (\<lambda>t. trial_body ops est alpha ms d t) ts st"
proof (induction ts arbitrary: st)
  case Nil
  show ?case by simp
next
  case (Cons t ts)
  have "trial_loop ops est alpha ms d ts = fold_err (\<lambda>t. trial_body ops est alpha ms d t) ts"
    using Cons.IH by blast
  then show ?case by simp
qed

lemma dimension_loop_fold:
  "dimension_loop ops est alpha ms n ds st =
     fold_err (\<lambda>(d, t). trial_body ops est alpha ms d t) (iterations n ds) st"
proof (induction ds arbitrary: st)
  case Nil
  show ?case by (simp add: iterations_def)
next
  case (Cons d ds)
  have it: "iterations n (d # ds) = map (\<lambda>t. (d, t)) (range_py n) @ iterations n ds"
    by (simp add: iterations_def)
  have "dimension_loop ops est alpha ms n ds =
      fold_err (\<lambda>(d, t). trial_body ops est alpha ms d t) (iterations n ds)"
    using Cons.IH by blast
  then show ?case
    by (simp add: it fold_err_append fold_err_map trial_loop_fold)
qed

lemma PIs_fully_populated:
  assumes run: "PIs_vs_dimensions ops est ms alpha n ds g = (Inr (res, g') :: 'e error + results \<times> 'g)"
  shows "fully_populated res ms n ds"
proof -
  have "case cell_at res m d of None \<Rightarrow> False
       | Some c \<Rightarrow> int (length (coverage c)) = n \<and> int (length (width_mean c)) = n \<and>
           list_all (\<lambda>v. v \<noteq> None) (coverage c) \<and> list_all (\<lambda>v. v \<noteq> None) (width_mean c)"
    if m: "m \<in> set ms" and d: "d \<in> set ds" for m d
  proof -
    have n: "0 \<le> n" by (rule PIs_nonneg_trials [OF run m d])
    from PIs_cells [OF run m d] obtain c where c:
        "cell_at res m d = Some c"
        "length (coverage c) = nat n" "length (width_mean c) = nat n"
        "\<forall>t<nat n. \<exists>cv wd. coverage c ! t = Some cv \<and> width_mean c ! t = Some wd \<and>
          drawn_score ops est alpha ((m, d, t), (cv, wd))"
      by blast
    have "list_all (\<lambda>v. v \<noteq> None) (coverage c)"
      unfolding list_all_length using c(2,4) by fastforce
    moreover have "list_all (\<lambda>v. v \<noteq> None) (width_mean c)"
      unfolding list_all_length using c(3,4) by fastforce
    ultimately show ?thesis using c(1,2,3) n by simp
  qed
  then show ?thesis unfolding fully_populated_def list_all_iff by blast
qed

lemma trial_body_Inl_iff:
  "trial_body ops est alpha ms d t (res1, g1) = (Inl e :: 'e error + results \<times> 'g) \<longleftrightarrow>
     gen_data ops d g1 = (Inl e :: 'e error + trial_data \<times> 'g) \<or>
     (\<exists>dat g2 ms1 m ms2 res2.
        gen_data ops d g1 = (Inr (dat, g2) :: 'e error + trial_data \<times> 'g) \<and> ms = ms1 @ m # ms2 \<and>
        method_loop est alpha dat d t ms1 res1 = (Inr res2 :: 'e error + results) \<and>
        method_loop est alpha dat d t [m] res2 = (Inl e :: 'e error + results))"
proof (cases "gen_data ops d g1 :: 'e error + trial_data \<times> 'g")
  case (Inl e')
  then show ?thesis by (auto simp: trial_body_def)
next
  case (Inr p)
  obtain dat g2 where p: "p = (dat, g2)" by (cases p)
  have "trial_body ops est alpha ms d t (res1, g1) = (Inl e :: 'e error + results \<times> 'g) \<longleftrightarrow>
      method_loop est alpha dat d t ms res1 = (Inl e :: 'e error + results)"
    using Inr p by (auto simp: trial_body_def bind_err_def split: sum.splits)
  also have "\<dots> \<longleftrightarrow> (\<exists>ms1 m ms2 res2. ms = ms1 @ m # ms2 \<and>
        fold_err (\<lambda>m. method_loop est alpha dat d t [m]) ms1 res1 = (Inr res2 :: 'e error + results) \<and>
        method_loop est alpha dat d t [m] res2 = (Inl e :: 'e error + results))"
    by (subst method_loop_fold) (rule fold_err_Inl_iff)
  also have "\<dots> \<longleftrightarrow> (\<exists>ms1 m ms2 res2. ms = ms1 @ m # ms2 \<and>
        method_loop est alpha dat d t ms1 res1 = (Inr res2 :: 'e error + results) \<and>
        method_loop est alpha dat d t [m] res2 = (Inl e :: 'e error + results))"
    by (simp only: method_loop_fold [symmetric])
  finally show ?thesis using Inr p by auto
qed

lemma PIs_Inl_iff:
  "PIs_vs_dimensions ops est ms alpha n ds g = (Inl e :: 'e error + results \<times> 'g) \<longleftrightarrow>
     init_results ms n ds = (Inl e :: 'e error + results) \<or>
     (\<exists>res0 its1 d t its2 res1 g1.
        init_results ms n ds = (Inr res0 :: 'e error + results) \<and>
        iterations n ds = its1 @ (d, t) # its2 \<and>
        fold_err (\<lambda>(d, t). trial_body ops est alpha ms d t) its1 (res0, g)
          = (Inr (res1, g1) :: 'e error + results \<times> 'g) \<and>
        trial_body ops est alpha ms d t (res1, g1) = (Inl e :: 'e error + results \<times> 'g))"
proof (cases "init_results ms n ds :: 'e error + results")
  case (Inl e')
  then show ?thesis by (auto simp: PIs_vs_dimensions_def)
next
  case (Inr res0)
  have "PIs_vs_dimensions ops est ms alpha n ds g = (Inl e :: 'e error + results \<times> 'g) \<longleftrightarrow>
      fold_err (\<lambda>(d, t). trial_body ops est alpha ms d t) (iterations n ds) (res0, g)
        = (Inl e :: 'e error + results \<times> 'g)"
    using Inr by (simp add: PIs_vs_dimensions_def dimension_loop_fold)
  also have "\<dots> \<longleftrightarrow> (\<exists>its1 d t its2 res1 g1.
        iterations n ds = its1 @ (d, t) # its2 \<and>
        fold_err (\<lambda>(d, t). trial_body ops est alpha ms d t) its1 (res0, g)
          = (Inr (res1, g1) :: 'e error + results \<times> 'g) \<and>
        trial_body ops est alpha ms d t (res1, g1) = (Inl e :: 'e error + results \<times> 'g))"
    unfolding fold_err_Inl_iff by auto
  finally show ?thesis using Inr by auto
qed

lemma method_loop_estimator_error:
  "est m alpha (X_train dat) (y_train dat) (X_test dat) = Inl e0 \<Longrightarrow>
   method_loop est alpha dat d t (m # ms) res = Inl (EstimatorError e0)"
  by simp

lemma run_writes_shape:
  assumes "run_writes res tr = (Inr res' :: 'e error + results)"
  shows "shape_of res' = shape_of res"
  using assms
proof (induction tr arbitrary: res)
  case Nil
  then show ?case by simp
next
  case (Cons w tr)
  obtain k sc where w: "w = (k, sc)" by (cases w)
  obtain m0 d0 t0 where k: "k = (m0, d0, t0)" by (metis prod.collapse)
  from Cons.prems obtain res1 where
      r1: "record_trial res ((m0, d0, t0), sc) = (Inr res1 :: 'e error + results)"
      and rest: "run_writes res1 tr = (Inr res' :: 'e error + results)"
    by (auto simp: w k bind_err_eq_Inr)
  show ?case using Cons.IH [OF rest] record_trial_shape [OF r1] by simp
qed

lemma method_loop_shape:
  assumes "method_loop est alpha dat d t ms res = (Inr res' :: 'e error + results)"
  shows "shape_of res' = shape_of res"
  using method_loop_trace [OF assms] run_writes_shape by blast

lemma trial_body_shape:
  assumes "trial_body ops est alpha ms d t (res, g) = (Inr (res', g') :: 'e error + results \<times> 'g)"
  shows "shape_of res' = shape_of res"
  using trial_body_trace [OF assms] run_writes_shape by blast

lemma fold_trial_body_shape:
  assumes "fold_err (\<lambda>(d, t). trial_body ops est alpha ms d t) its (res, g)
      = (Inr (res1, g1) :: 'e error + results \<times> 'g)"
  shows "shape_of res1 = shape_of res"
  using assms
proof (induction its arbitrary: res g)
  case Nil
  then show ?case by simp
next
  case (Cons it its)
  obtain d t where it: "it = (d, t)" by (cases it)
  from Cons.prems obtain res2 g2 where
      tb: "trial_body ops est alpha ms d t (res, g) = (Inr (res2, g2) :: 'e error + results \<times> 'g)"
      and rest: "fold_err (\<lambda>(d, t). trial_body ops est alpha ms d t) its (res2, g2)
        = (Inr (res1, g1) :: 'e error + results \<times> 'g)"
    by (auto simp: it bind_err_eq_Inr)
  show ?case using Cons.IH [OF rest] trial_body_shape [OF tb] by simp
qed

lemma iterations_mem: "(d, t) \<in> set (iterations n ds) \<longleftrightarrow> d \<in> set ds \<and> t < nat n"
  by (force simp: iterations_def range_py_def)

lemma gen_data_Inl:
  assumes "gen_data ops d g = (Inl e :: 'e error + trial_data \<times> 'g)"
  shows "d < 0 \<and> e = NegativeDimensions"
proof (cases "0 \<le> d")
  case True
  have "\<exists>ds g'. gen_data ops d g = (Inr (ds, g') :: 'e error + trial_data \<times> 'g)"
    by (rule gen_data_ok [OF True])
  with assms show ?thesis by auto
next
  case False
  then have "d < 0" by simp
  have "gen_data ops d g = (Inl NegativeDimensions :: 'e error + trial_data \<times> 'g)"
    by (rule gen_data_negative) fact
  with assms \<open>d < 0\<close> show ?thesis by simp
qed

lemma fit_scores_Inl:
  assumes "fit_scores est alpha dat m = (Inl e :: 'e error + np_float \<times> np_float)"
  shows "(\<exists>e0. est m alpha (X_train dat) (y_train dat) (X_test dat) = Inl e0 \<and> e = EstimatorError e0) \<or>
     (\<exists>rows. est m alpha (X_train dat) (y_train dat) (X_test dat) = Inr rows \<and>
        length rows \<noteq> length (y_test dat) \<and> length rows \<noteq> 1 \<and> e = BroadcastError)"
proof (cases "est m alpha (X_train dat) (y_train dat) (X_test dat)")
  case (Inl e0)
  then show ?thesis using assms by (simp add: fit_scores_def)
next
  case (Inr rows)
  have wd: "\<exists>wd. (width_mean_of rows :: 'e error + np_float) = Inr wd"
    by (simp add: width_mean_of_eq)
  have cv: "\<exists>cv. (coverage_of rows (y_test dat) :: 'e error + np_float) = Inr cv"
    if "length rows = length (y_test dat) \<or> length rows = 1"
    using that by (auto simp: coverage_of_def broadcast2_def col1_def col2_def)
  have "(coverage_of rows (y_test dat) :: 'e error + np_float) = Inl e"
    using assms Inr wd by (auto simp: fit_scores_def bind_err_eq_Inl)
  then have "e = BroadcastError" "\<not> (length rows = length (y_test dat) \<or> length rows = 1)"
    using cv by (auto simp: coverage_of_def bind_err_eq_Inl broadcast2_def split: if_splits)
  then show ?thesis using Inr by simp
qed

lemma method_pass_Inl:
  assumes "method_loop est alpha dat d t [m] res = (Inl e :: 'e error + results)"
    and "shape_of res m d = Some (a, b)" "t < a" "t < b"
  shows "fit_scores est alpha dat m = (Inl e :: 'e error + np_float \<times> np_float)"
proof (cases "fit_scores est alpha dat m :: 'e error + np_float \<times> np_float")
  case (Inl e')
  then show ?thesis using assms(1) by (simp add: method_loop_Cons del: method_loop.simps)
next
  case (Inr sc)
  from record_trial_ok_shape [OF assms(2,3,4), of sc] obtain res' where
      "record_trial res ((m, d, t), sc) = (Inr res' :: 'e error + results)"
    by blast
  then have "method_loop est alpha dat d t [m] res = (Inr res' :: 'e error + results)"
    using Inr by (simp only: method_loop_Cons bind_err_simps method_loop.simps(1))
  then show ?thesis using assms(1) by simp
qed

lemma PIs_error_sources:
  assumes fail: "PIs_vs_dimensions ops est ms alpha n ds g = (Inl e :: 'e error + results \<times> 'g)"
  shows "(e = NegativeDimensions \<and> (n < 0 \<or> (\<exists>d\<in>set ds. d < 0))) \<or>
     (\<exists>m\<in>set ms. \<exists>d\<in>set ds. \<exists>g0 dat g1.
        gen_data ops d g0 = (Inr (dat, g1) :: 'e error + trial_data \<times> 'g) \<and>
        ((\<exists>e0. est m alpha (X_train dat) (y_train dat) (X_test dat) = Inl e0 \<and> e = EstimatorError e0) \<or>
         (\<exists>rows. est m alpha (X_train dat) (y_train dat) (X_test dat) = Inr rows \<and>
            length rows \<noteq> 100 \<and> length rows \<noteq> 1 \<and> e = BroadcastError)))"
proof -
  from fail [unfolded PIs_Inl_iff]
  consider (init) "init_results ms n ds = (Inl e :: 'e error + results)"
    | (iter) res0 its1 d t its2 res1 g1 where
        "init_results ms n ds = (Inr res0 :: 'e error + results)"
        "iterations n ds = its1 @ (d, t) # its2"
        "fold_err (\<lambda>(d, t). trial_body ops est alpha ms d t) its1 (res0, g)
          = (Inr (res1, g1) :: 'e error + results \<times> 'g)"
        "trial_body ops est alpha ms d t (res1, g1) = (Inl e :: 'e error + results \<times> 'g)"
    by blast
  then show ?thesis
  proof cases
    case init
    then have "e = NegativeDimensions \<and> n < 0"
      by (auto simp: init_results_eq split: if_splits)
    then show ?thesis by simp
  next
    case iter
    have r0: "res0 = init_table ms n ds"
      using iter(1) by (auto simp: init_results_eq split: if_splits)
    have "(d, t) \<in> set (iterations n ds)" unfolding iter(2) by simp
    then have dt: "d \<in> set ds" "t < nat n" by (simp_all add: iterations_mem)
    have sh1: "shape_of res1 = shape_of (init_table ms n ds)"
      using fold_trial_body_shape [OF iter(3)] r0 by simp
    from iter(4) [unfolded trial_body_Inl_iff]
    consider (gen) "gen_data ops d g1 = (Inl e :: 'e error + trial_data \<times> 'g)"
      | (pass) dat g2 ms1 m ms2 res2 where
          "gen_data ops d g1 = (Inr (dat, g2) :: 'e error + trial_data \<times> 'g)"
          "ms = ms1 @ m # ms2"
          "method_loop est alpha dat d t ms1 res1 = (Inr res2 :: 'e error + results)"
          "method_loop est alpha dat d t [m] res2 = (Inl e :: 'e error + results)"
      by blast
    then show ?thesis
    proof cases
      case gen
      from gen_data_Inl [OF gen] dt(1) show ?thesis by blast
    next
      case pass
      have m: "m \<in> set ms" unfolding pass(2) by simp
      have "shape_of res2 = shape_of (init_table ms n ds)"
        using method_loop_shape [OF pass(3)] sh1 by simp
      then have sh2: "shape_of res2 m d = Some (nat n, nat n)"
        using m dt(1) by (simp add: shape_of_init_table)
      have fs: "fit_scores est alpha dat m = (Inl e :: 'e error + np_float \<times> np_float)"
        by (rule method_pass_Inl [OF pass(4) sh2 dt(2) dt(2)])
      have l: "length (y_test dat) = 100" using gen_data_lengths [OF pass(1)] by simp
      from fit_scores_Inl [OF fs] l
      have "(\<exists>e0. est m alpha (X_train dat) (y_train dat) (X_test dat) = Inl e0 \<and> e = EstimatorError e0) \<or>
         (\<exists>rows. est m alpha (X_train dat) (y_train dat) (X_test dat) = Inr rows \<and>
            length rows \<noteq> 100 \<and> length rows \<noteq> 1 \<and> e = BroadcastError)"
        by simp
      then show ?thesis using m dt(1) pass(1) by blast
    qed
  qed
qed

text \<open>
  C7, as amended.  A call of the harness either returns a fully populated table, or it
  fails with the first exception met in the order dimension, trial, method: it fails with
  \<open>e\<close> exactly when building the table fails with \<open>e\<close>, or some iteration fails with \<open>e\<close>
  after all earlier iterations succeeded; an iteration fails with \<open>e\<close> exactly when its
  data generation does, or some method's pass does after all earlier passes succeeded;
  and a pass whose estimator raises \<open>e0\<close> fails with that exception.  Nothing is caught,
  retried or skipped, and a failed call returns no table.  The exception need not be the
  estimator's: it is numpy's for a negative \<open>n_trial\<close> or a negative dimension, the
  estimator's own when a fit or a prediction raises, and numpy's again when a prediction
  has neither one row nor 100 rows; a prediction being an array of rows of three columns,
  there is no other failure.
\<close>

theorem run_completes_or_first_error_propagates:
  "(\<forall>res g'. PIs_vs_dimensions ops est methods alpha n_trial dimensions g
        = (Inr (res, g') :: 'e error + results \<times> 'g) \<longrightarrow>
      fully_populated res methods n_trial dimensions) \<and>
   (\<forall>e. PIs_vs_dimensions ops est methods alpha n_trial dimensions g
        = (Inl e :: 'e error + results \<times> 'g) \<longleftrightarrow>
      init_results methods n_trial dimensions = (Inl e :: 'e error + results) \<or>
      (\<exists>res0 its1 d t its2 res1 g1.
        init_results methods n_trial dimensions = (Inr res0 :: 'e error + results) \<and>
        iterations n_trial dimensions = its1 @ (d, t) # its2 \<and>
        fold_err (\<lambda>(d, t). trial_body ops est alpha methods d t) its1 (res0, g)
          = (Inr (res1, g1) :: 'e error + results \<times> 'g) \<and>
        trial_body ops est alpha methods d t (res1, g1) = (Inl e :: 'e error + results \<times> 'g))) \<and>
   (\<forall>d t res1 g1 e. trial_body ops est alpha methods d t (res1, g1) = (Inl e :: 'e error + results \<times> 'g) \<longleftrightarrow>
      gen_data ops d g1 = (Inl e :: 'e error + trial_data \<times> 'g) \<or>
      (\<exists>dat g2 ms1 m ms2 res2.
        gen_data ops d g1 = (Inr (dat, g2) :: 'e error + trial_data \<times> 'g) \<and>
        methods = ms1 @ m # ms2 \<and>
        method_loop est alpha dat d t ms1 res1 = (Inr res2 :: 'e error + results) \<and>
        method_loop est alpha dat d t [m] res2 = (Inl e :: 'e error + results))) \<and>
   (\<forall>(dat :: trial_data) d t m res2 e0. est m alpha (X_train dat) (y_train dat) (X_test dat) = Inl e0 \<longrightarrow>
      method_loop est alpha dat d t [m] res2 = (Inl (EstimatorError e0) :: 'e error + results)) \<and>
   (\<forall>e. PIs_vs_dimensions ops est methods alpha n_trial dimensions g
        = (Inl e :: 'e error + results \<times> 'g) \<longrightarrow>
      (e = NegativeDimensions \<and> (n_trial < 0 \<or> (\<exists>d\<in>set dimensions. d < 0))) \<or>
      (\<exists>m\<in>set methods. \<exists>d\<in>set dimensions. \<exists>g0 dat g1.
        gen_data ops d g0 = (Inr (dat, g1) :: 'e error + trial_data \<times> 'g) \<and>
        ((\<exists>e0. est m alpha (X_train dat) (y_train dat) (X_test dat) = Inl e0 \<and> e = EstimatorError e0) \<or>
         (\<exists>rows. est m alpha (X_train dat) (y_train dat) (X_test dat) = Inr rows \<and>
            length rows \<noteq> 100 \<and> length rows \<noteq> 1 \<and> e = BroadcastError))))"
proof (intro conjI allI impI)
  fix res g'
  assume "PIs_vs_dimensions ops est methods alpha n_trial dimensions g
        = (Inr (res, g') :: 'e error + results \<times> 'g)"
  then show "fully_populated res methods n_trial dimensions" by (rule PIs_fully_populated)
next
  fix e
  show "PIs_vs_dimensions ops est methods alpha n_trial dimensions g
        = (Inl e :: 'e error + results \<times> 'g) \<longleftrightarrow>
      init_results methods n_trial dimensions = (Inl e :: 'e error + results) \<or>
      (\<exists>res0 its1 d t its2 res1 g1.
        init_results methods n_trial dimensions = (Inr res0 :: 'e error + results) \<and>
        iterations n_trial dimensions = its1 @ (d, t) # its2 \<and>
        fold_err (\<lambda>(d, t). trial_body ops est alpha methods d t) its1 (res0, g)
          = (Inr (res1, g1) :: 'e error + results \<times> 'g) \<and>
        trial_body ops est alpha methods d t (res1, g1) = (Inl e :: 'e error + results \<times> 'g))"
    by (rule PIs_Inl_iff)
next
  fix d t res1 g1 e
  show "trial_body ops est alpha methods d t (res1, g1) = (Inl e :: 'e error + results \<times> 'g) \<longleftrightarrow>
      gen_data ops d g1 = (Inl e :: 'e error + trial_data \<times> 'g) \<or>
      (\<exists>dat g2 ms1 m ms2 res2.
        gen_data ops d g1 = (Inr (dat, g2) :: 'e error + trial_data \<times> 'g) \<and>
        methods = ms1 @ m # ms2 \<and>
        method_loop est alpha dat d t ms1 res1 = (Inr res2 :: 'e error + results) \<and>
        method_loop est alpha dat d t [m] res2 = (Inl e :: 'e error + results))"
    by (rule trial_body_Inl_iff)
next
  fix dat :: trial_data and d t m res2 e0
  assume "est m alpha (X_train dat) (y_train dat) (X_test dat) = Inl e0"
  then show "method_loop est alpha dat d t [m] res2 = (Inl (EstimatorError e0) :: 'e error + results)"
    by (rule method_loop_estimator_error)
next
  fix e
  assume "PIs_vs_dimensions ops est methods alpha n_trial dimensions g
        = (Inl e :: 'e error + results \<times> 'g)"
  then show "(e = NegativeDimensions \<and> (n_trial < 0 \<or> (\<exists>d\<in>set dimensions. d < 0))) \<or>
      (\<exists>m\<in>set methods. \<exists>d\<in>set dimensions. \<exists>g0 dat g1.
        gen_data ops d g0 = (Inr (dat, g1) :: 'e error + trial_data \<times> 'g) \<and>
        ((\<exists>e0. est m alpha (X_train dat) (y_train dat) (X_test dat) = Inl e0 \<and> e = EstimatorError e0) \<or>
         (\<exists>rows. est m alpha (X_train dat) (y_train dat) (X_test dat) = Inr rows \<and>
            length rows \<noteq> 100 \<and> length rows \<noteq> 1 \<and> e = BroadcastError)))"
    by (rule PIs_error_sources)
qed

theorem run_completes_or_first_error_propagates_witness:
  "PIs_vs_dimensions counter_ops est_fail [''naive'', ''cv''] (1 / 10) 2 [1, 2] 1
     = (Inl (EstimatorError ()) :: unit error + results \<times> nat)
   \<and> fully_populated
       (fst (projr (PIs_vs_dimensions counter_ops (est_const (Fin 0, Fin 0, Fin 1)) [''naive'', ''cv''] (1 / 10) 2 [1, 2] 1)))
       [''naive'', ''cv''] 2 [1, 2]"
proof -
  note T = run_completes_or_first_error_propagates
    [of counter_ops est_fail "[''naive'', ''cv'']" "1 / 10" 2 "[1, 2]" 1]
  note T2 = T [THEN conjunct2, THEN conjunct1]
  note T3 = T [THEN conjunct2, THEN conjunct2, THEN conjunct1]
  note T4 = T [THEN conjunct2, THEN conjunct2, THEN conjunct2, THEN conjunct1]
  obtain dat g2 where gd: "gen_data counter_ops 1 1 = (Inr (dat, g2) :: unit error + trial_data \<times> nat)"
    using gen_data_ok [of 1 counter_ops 1] by auto
  let ?res0 = "init_table [''naive'', ''cv''] 2 [1, 2]"
  have "est_fail ''naive'' (1 / 10) (X_train dat) (y_train dat) (X_test dat) = Inl ()"
    by (simp add: est_fail_def)
  with T4 have fail1: "method_loop est_fail (1 / 10) dat 1 0 [''naive''] ?res0
      = (Inl (EstimatorError ()) :: unit error + results)"
    by blast
  have split: "[''naive'', ''cv''] = [] @ ''naive'' # [''cv'']" by simp
  have nil: "method_loop est_fail (1 / 10) dat 1 0 [] ?res0 = (Inr ?res0 :: unit error + results)"
    by simp
  have tb: "trial_body counter_ops est_fail (1 / 10) [''naive'', ''cv''] 1 0 (?res0, 1)
      = (Inl (EstimatorError ()) :: unit error + results \<times> nat)"
    unfolding T3 [rule_format] using gd split nil fail1 by blast
  have init: "init_results [''naive'', ''cv''] 2 [1, 2] = (Inr ?res0 :: unit error + results)"
    by (simp add: init_results_eq)
  have its: "iterations 2 [1, 2] = [] @ (1, 0) # [(1, 1), (2, 0), (2, 1)]"
    by (simp add: iterations_def range_py_def upt_rec)
  have f0: "fold_err (\<lambda>(d, t). trial_body counter_ops est_fail (1 / 10) [''naive'', ''cv''] d t) [] (?res0, 1)
      = (Inr (?res0, 1) :: unit error + results \<times> nat)"
    by simp
  have a: "PIs_vs_dimensions counter_ops est_fail [''naive'', ''cv''] (1 / 10) 2 [1, 2] 1
     = (Inl (EstimatorError ()) :: unit error + results \<times> nat)"
    unfolding T2 [rule_format] using init its f0 tb by blast
  let ?run = "PIs_vs_dimensions counter_ops (est_const (Fin 0, Fin 0, Fin 1)) [''naive'', ''cv''] (1 / 10) 2 [1, 2] 1
      :: unit error + results \<times> nat"
  have "\<exists>res g'. ?run = Inr (res, g')"
    by (rule PIs_counter_const_completes) simp_all
  then have run: "?run = Inr (fst (projr ?run), snd (projr ?run))" by auto
  note U1 = run_completes_or_first_error_propagates
    [of counter_ops "est_const (Fin 0, Fin 0, Fin 1)" "[''naive'', ''cv'']" "1 / 10" 2 "[1, 2]" 1, THEN conjunct1]
  have b: "fully_populated (fst (projr ?run)) [''naive'', ''cv''] 2 [1, 2]"
    using U1 [rule_format, OF run] .
  show ?thesis by (intro conjI a b)
qed


theorem numpy_error_without_estimator_error:
  "PIs_vs_dimensions counter_ops (est_const (Fin 0, Fin 0, Fin 1)) [''naive''] (1 / 10) (- 1) [5] 1
     = (Inl NegativeDimensions :: unit error + results \<times> nat)
   \<and> PIs_vs_dimensions counter_ops (est_const (Fin 0, Fin 0, Fin 1)) [''naive''] (1 / 10) 1 [- 1] 1
     = (Inl NegativeDimensions :: unit error + results \<times> nat)"
proof -
  have a: "PIs_vs_dimensions counter_ops (est_const (Fin 0, Fin 0, Fin 1)) [''naive''] (1 / 10) (- 1) [5] 1
     = (Inl NegativeDimensions :: unit error + results \<times> nat)"
    by (simp add: PIs_vs_dimensions_def init_results_eq)
  have b: "PIs_vs_dimensions counter_ops (est_const (Fin 0, Fin 0, Fin 1)) [''naive''] (1 / 10) 1 [- 1] 1
     = (Inl NegativeDimensions :: unit error + results \<times> nat)"
    by (simp add: PIs_vs_dimensions_def init_results_eq range_py_def trial_body_def gen_data_negative)
  show ?thesis by (intro conjI a b)
qed

section \<open>Seeding and reproducibility\<close>

lemma single_run:
  "(PIs_vs_dimensions ops est ms alpha 1 [d] g :: 'e error + results \<times> 'g) =
     trial_body ops est alpha ms d 0 (init_table ms 1 [d], g)"
proof -
  have r: "range_py 1 = [0]" by (simp add: range_py_def)
  show ?thesis
    by (cases "trial_body ops est alpha ms d 0 (init_table ms 1 [d], g) :: 'e error + results \<times> 'g")
      (simp_all add: PIs_vs_dimensions_def init_results_eq r)
qed

lemma gen_data_counter_X_test:
  assumes "gen_data counter_ops 1 g = (Inr (dat, g') :: 'e error + trial_data \<times> nat)"
  shows "X_test dat ! 0 ! 0 = real (g + 301) \<and> length (X_test dat) = 100 \<and> g' = g + 401"
proof -
  from gen_data_draw_order_aux [OF assms] obtain b0 g1 g2 noise_train g3 noise_test g4 where h:
      "draws (random_normal counter_ops 0 1) (nat 1) g = (b0, g1)"
      "draws_rows (random_normal counter_ops 0 1) 100 (nat 1) g1 = (X_train dat, g2)"
      "draws (random_normal counter_ops 0 1) 100 g2 = (noise_train, g3)"
      "draws (random_normal counter_ops 0 1) 100 g3 = (noise_test, g4)"
      "draws_rows (random_normal counter_ops 0 1) 100 (nat 1) g4 = (X_test dat, g')"
    by blast
  have "g1 = g + 1" using h(1) by (simp add: draws_counter)
  moreover have "g2 = g1 + 100" using h(2) by (simp add: draws_rows_counter)
  moreover have "g3 = g2 + 100" using h(3) by (simp add: draws_counter)
  moreover have "g4 = g3 + 100" using h(4) by (simp add: draws_counter)
  ultimately have g4: "g4 = g + 301" by simp
  have "X_test dat = map (\<lambda>i. map real [g4 + i * 1 ..< g4 + i * 1 + 1]) [0 ..< 100]" "g' = g4 + 100"
    using h(5) by (simp_all add: draws_rows_counter del: upt_Suc)
  then have "X_test dat ! 0 ! 0 = real g4" "length (X_test dat) = 100" "g' = g4 + 100"
    by (simp_all del: upt_Suc)
  then show ?thesis using g4 by simp
qed

lemma single_run_first_width:
  "\<exists>res c. PIs_vs_dimensions counter_ops est_first [''naive''] alpha 1 [1] g
        = (Inr (res, g + 401) :: unit error + results \<times> nat) \<and>
      cell_at res ''naive'' 1 = Some c \<and> width_mean c ! 0 = Some (Fin (real (g + 301)))"
proof -
  let ?tb = "trial_body counter_ops est_first alpha [''naive''] 1 0 (init_table [''naive''] 1 [1], g)
      :: unit error + results \<times> nat"
  have "\<exists>res' g'. trial_loop counter_ops est_first alpha [''naive''] 1 [0] (init_table [''naive''] 1 [1], g)
        = (Inr (res', g') :: unit error + results \<times> nat)
     \<and> shape_of res' = shape_of (init_table [''naive''] 1 [1]) \<and> True"
  proof (rule trial_loop_ok [where I = "\<lambda>g. True"])
    show "True" by simp
    show "\<exists>dat g'. gen_data counter_ops 1 g = (Inr (dat, g') :: unit error + trial_data \<times> nat) \<and> True"
      if "True" for g
      using gen_data_ok [of 1 counter_ops g] by simp
    show "\<exists>sc. fit_scores est_first alpha dat m = (Inr sc :: unit error + np_float \<times> np_float)"
      if gd: "gen_data counter_ops 1 g = (Inr (dat, g') :: unit error + trial_data \<times> nat)" for g dat g' m
    proof -
      have l: "length (X_test dat) = 100" "length (y_test dat) = 100"
        using gen_data_lengths [OF gd] by simp_all
      have "\<exists>cv wd. fit_scores est_first alpha dat m = (Inr (cv, wd) :: unit error + np_float \<times> np_float) \<and>
         (coverage_of (map (\<lambda>x. (Fin 0, Fin 0, Fin (X_test dat ! 0 ! 0))) (X_test dat)) (y_test dat)
            :: unit error + np_float) = Inr cv \<and>
         (width_mean_of (map (\<lambda>x. (Fin 0, Fin 0, Fin (X_test dat ! 0 ! 0))) (X_test dat))
            :: unit error + np_float) = Inr wd"
        by (rule fit_scores_rows_ok) (use l in \<open>auto simp: est_first_def\<close>)
      then show ?thesis by blast
    qed
    show "\<forall>m\<in>set [''naive'']. \<forall>t\<in>set [0]. \<exists>a b. shape_of (init_table [''naive''] 1 [1]) m 1 = Some (a, b) \<and> t < a \<and> t < b"
      by (simp add: shape_of_init_table)
  qed
  then obtain res g' where tb: "?tb = Inr (res, g')"
    unfolding trial_loop_single by blast
  from trial_body_scores [OF tb] obtain dat y_preds wid c where h:
      "gen_data counter_ops 1 g = (Inr (dat, g') :: unit error + trial_data \<times> nat)"
      "est_first ''naive'' alpha (X_train dat) (y_train dat) (X_test dat) = Inr y_preds"
      "(width_mean_of y_preds :: unit error + np_float) = Inr wid"
      "cell_at res ''naive'' 1 = Some c" "width_mean c ! 0 = Some wid"
    by fastforce
  from gen_data_counter_X_test [OF h(1)]
  have x: "X_test dat ! 0 ! 0 = real (g + 301)" "X_test dat \<noteq> []" "g' = g + 401"
    by auto
  have "y_preds = map (\<lambda>x. (Fin 0, Fin 0, Fin (X_test dat ! 0 ! 0))) (X_test dat)"
    using h(2) by (simp add: est_first_def)
  then have "wid = Fin (real (g + 301))"
    using h(3) x(1) by (simp add: width_mean_of_const [OF x(2)])
  then show ?thesis using tb h(4,5) x(3) unfolding single_run by blast
qed

lemma single_runs_differ:
  assumes "g1 \<noteq> g2"
  shows "map_sum id fst (PIs_vs_dimensions counter_ops est_first [''naive''] alpha 1 [1] g1
            :: unit error + results \<times> nat)
     \<noteq> map_sum id fst (PIs_vs_dimensions counter_ops est_first [''naive''] alpha 1 [1] g2
            :: unit error + results \<times> nat)"
proof -
  from single_run_first_width [of alpha g1] obtain res1 c1 where r1:
      "PIs_vs_dimensions counter_ops est_first [''naive''] alpha 1 [1] g1
         = (Inr (res1, g1 + 401) :: unit error + results \<times> nat)"
      "cell_at res1 ''naive'' 1 = Some c1" "width_mean c1 ! 0 = Some (Fin (real (g1 + 301)))"
    by blast
  from single_run_first_width [of alpha g2] obtain res2 c2 where r2:
      "PIs_vs_dimensions counter_ops est_first [''naive''] alpha 1 [1] g2
         = (Inr (res2, g2 + 401) :: unit error + results \<times> nat)"
      "cell_at res2 ''naive'' 1 = Some c2" "width_mean c2 ! 0 = Some (Fin (real (g2 + 301)))"
    by blast
  have "res1 \<noteq> res2"
  proof
    assume "res1 = res2"
    then have "c1 = c2" using r1(2) r2(2) by simp
    then show False using r1(3) r2(3) assms by simp
  qed
  then show ?thesis unfolding r1(1) r2(1) by simp
qed

lemma PIs_Inr_fold:
  assumes "PIs_vs_dimensions ops est ms alpha n ds g = (Inr (res, g') :: 'e error + results \<times> 'g)"
  shows "fold_err (\<lambda>(d, t). trial_body ops est alpha ms d t) (iterations n ds) (init_table ms n ds, g)
      = (Inr (res, g') :: 'e error + results \<times> 'g)"
proof -
  from assms obtain res0 where
      i: "init_results ms n ds = (Inr res0 :: 'e error + results)"
      and d: "dimension_loop ops est alpha ms n ds (res0, g) = (Inr (res, g') :: 'e error + results \<times> 'g)"
    by (auto simp: PIs_vs_dimensions_def bind_err_eq_Inr)
  have "res0 = init_table ms n ds"
    using i by (auto simp: init_results_eq split: if_splits)
  then show ?thesis using d by (simp add: dimension_loop_fold)
qed

lemma get_homoscedastic_data_Inr:
  assumes "get_homoscedastic_data ops n_samples ntest sigma g
      = (Inr ((Xtr, ytr, Xte, yte, sig), g2)
          :: 'e error + (real list \<times> real list \<times> real list \<times> real list \<times> real) \<times> 'g)"
  shows "\<exists>noise g1.
      draws (random_exponential ops (4 / 10)) (nat n_samples) (random_seed ops 59) = (Xtr, g1) \<and>
      draws (random_normal ops 0 sigma) (nat n_samples) g1 = (noise, g2) \<and>
      ytr = map2 (+) (map f Xtr) noise \<and>
      Xte = map (\<lambda>i. 1 / 1000 + real i * ((12 / 10 - 1 / 1000) / real_of_int ntest)) [0 ..< nat ntest] \<and>
      yte = map f Xte \<and> sig = 18 / 10 * sigma \<and>
      0 \<le> n_samples \<and> 0 \<le> ntest \<and> 0 \<le> sigma"
proof -
  let ?g0 = "random_seed ops 59"
  obtain X1 g1 where e: "draws (random_exponential ops (4 / 10)) (nat n_samples) ?g0 = (X1, g1)"
    by (cases "draws (random_exponential ops (4 / 10)) (nat n_samples) ?g0")
  obtain ns g3 where n: "draws (random_normal ops 0 sigma) (nat n_samples) g1 = (ns, g3)"
    by (cases "draws (random_normal ops 0 sigma) (nat n_samples) g1")
  have c: "0 \<le> n_samples" "0 \<le> ntest" "0 \<le> sigma"
    using assms e
    by (auto simp: get_homoscedastic_data_def np_random_seed_def exponential_size_def linspace_def
        normal_loc_scale_size_def Let_def split: if_splits)
  have "Xtr = X1 \<and> g2 = g3 \<and> ytr = map2 (+) (map f X1) ns \<and>
      Xte = map (\<lambda>i. 1 / 1000 + real i * ((12 / 10 - 1 / 1000) / real_of_int ntest)) [0 ..< nat ntest] \<and>
      yte = map f Xte \<and> sig = 18 / 10 * sigma"
    using assms e n c
    by (auto simp: get_homoscedastic_data_def np_random_seed_def exponential_size_def linspace_def
        normal_loc_scale_size_def Let_def)
  then show ?thesis using e n c by blast
qed

lemma get_homoscedastic_data_ok:
  assumes "0 \<le> n_samples" "0 \<le> ntest" "0 \<le> sigma"
  shows "\<exists>r. get_homoscedastic_data ops n_samples ntest sigma g
      = (Inr r :: 'e error + (real list \<times> real list \<times> real list \<times> real list \<times> real) \<times> 'g)"
proof -
  let ?g0 = "random_seed ops 59"
  obtain X1 g1 where e: "draws (random_exponential ops (4 / 10)) (nat n_samples) ?g0 = (X1, g1)"
    by (cases "draws (random_exponential ops (4 / 10)) (nat n_samples) ?g0")
  obtain ns g3 where n: "draws (random_normal ops 0 sigma) (nat n_samples) g1 = (ns, g3)"
    by (cases "draws (random_normal ops 0 sigma) (nat n_samples) g1")
  let ?L = "map (\<lambda>i. 1 / 1000 + real i * ((12 / 10 - 1 / 1000) / real_of_int ntest)) [0 ..< nat ntest]"
  have "get_homoscedastic_data ops n_samples ntest sigma g
      = (Inr ((X1, map2 (+) (map f X1) ns, ?L, map f ?L, 18 / 10 * sigma), g3)
        :: 'e error + (real list \<times> real list \<times> real list \<times> real list \<times> real) \<times> 'g)"
    using assms e n
    by (simp add: get_homoscedastic_data_def np_random_seed_def exponential_size_def linspace_def
        normal_loc_scale_size_def Let_def)
  then show ?thesis by blast
qed

text \<open>
  C4.  A script that fixes the seed and then calls the harness gives the same result
  (table, or exception) whatever state the generator was in before, for the same
  configuration and the same deterministic estimator; in particular a second seeded run,
  started in the state the first one left, returns the table of the first.  The harness
  itself never seeds: a seeded run is the harness started in the state of the seed (or the
  exception of \<^verbatim>\<open>np.random.seed\<close> for a seed out of range), a call
  that returns is the loop nest threading the state it was given through the iterations,
  and an iteration changes the state by the draws of its dataset only, made from the state
  it receives; so the same call repeated without seeding, or started in another
  state, gives another table.  The one-dimensional example seeds the generator with 59
  itself: its training inputs are exponential draws from the state of seed 59, its noise
  the normal draws that follow, whatever state the generator was in at the call.
\<close>

theorem seeded_runs_are_reproducible:
  "(\<forall>g1 g2. (seeded_run ops s est methods alpha n_trial dimensions g1 :: 'e error + results \<times> 'g)
      = seeded_run ops s est methods alpha n_trial dimensions g2) \<and>
   (\<forall>g res g'. seeded_run ops s est methods alpha n_trial dimensions g
        = (Inr (res, g') :: 'e error + results \<times> 'g) \<longrightarrow>
      seeded_run ops s est methods alpha n_trial dimensions g' = (Inr (res, g') :: 'e error + results \<times> 'g)) \<and>
   (\<forall>g. (seeded_run ops s est methods alpha n_trial dimensions g :: 'e error + results \<times> 'g)
      = (if s < 0 \<or> 2 ^ 32 \<le> s then Inl SeedOutOfRange
         else PIs_vs_dimensions ops est methods alpha n_trial dimensions (random_seed ops s))) \<and>
   (\<forall>g res g'. PIs_vs_dimensions ops est methods alpha n_trial dimensions g
        = (Inr (res, g') :: 'e error + results \<times> 'g) \<longrightarrow>
      fold_err (\<lambda>(d, t). trial_body ops est alpha methods d t) (iterations n_trial dimensions)
          (init_table methods n_trial dimensions, g)
        = (Inr (res, g') :: 'e error + results \<times> 'g)) \<and>
   (\<forall>d t res1 g1 res2 g2. trial_body ops est alpha methods d t (res1, g1)
        = (Inr (res2, g2) :: 'e error + results \<times> 'g) \<longrightarrow>
      (\<exists>dat. gen_data ops d g1 = (Inr (dat, g2) :: 'e error + trial_data \<times> 'g))) \<and>
   (\<forall>g1 g2. g1 \<noteq> g2 \<longrightarrow>
      map_sum id fst (PIs_vs_dimensions counter_ops est_first [''naive''] alpha 1 [1] g1
            :: unit error + results \<times> nat)
      \<noteq> map_sum id fst (PIs_vs_dimensions counter_ops est_first [''naive''] alpha 1 [1] g2
            :: unit error + results \<times> nat)) \<and>
   (\<forall>g. \<exists>res. PIs_vs_dimensions counter_ops est_first [''naive''] alpha 1 [1] g
        = (Inr (res, g + 401) :: unit error + results \<times> nat)) \<and>
   (\<forall>g1 g2. (get_homoscedastic_data ops n_samples ntest sigma g1
        :: 'e error + (real list \<times> real list \<times> real list \<times> real list \<times> real) \<times> 'g)
      = get_homoscedastic_data ops n_samples ntest sigma g2) \<and>
   (\<forall>g Xtr ytr Xte yte sig g2. get_homoscedastic_data ops n_samples ntest sigma g
        = (Inr ((Xtr, ytr, Xte, yte, sig), g2)
            :: 'e error + (real list \<times> real list \<times> real list \<times> real list \<times> real) \<times> 'g) \<longrightarrow>
      (\<exists>noise g1.
        draws (random_exponential ops (4 / 10)) (nat n_samples) (random_seed ops 59) = (Xtr, g1) \<and>
        draws (random_normal ops 0 sigma) (nat n_samples) g1 = (noise, g2) \<and>
        ytr = map2 (+) (map f Xtr) noise \<and>
        Xte = map (\<lambda>i. 1 / 1000 + real i * ((12 / 10 - 1 / 1000) / real_of_int ntest)) [0 ..< nat ntest] \<and>
        yte = map f Xte \<and> sig = 18 / 10 * sigma \<and>
        0 \<le> n_samples \<and> 0 \<le> ntest \<and> 0 \<le> sigma)) \<and>
   (0 \<le> n_samples \<and> 0 \<le> ntest \<and> 0 \<le> sigma \<longrightarrow>
      (\<forall>g. \<exists>r. get_homoscedastic_data ops n_samples ntest sigma g
        = (Inr r :: 'e error + (real list \<times> real list \<times> real list \<times> real list \<times> real) \<times> 'g)))"
proof (intro conjI allI impI)
  fix g1 g2
  show "(seeded_run ops s est methods alpha n_trial dimensions g1 :: 'e error + results \<times> 'g)
      = seeded_run ops s est methods alpha n_trial dimensions g2"
    by (simp add: seeded_run_def np_random_seed_def)
next
  fix g res g'
  assume "seeded_run ops s est methods alpha n_trial dimensions g
        = (Inr (res, g') :: 'e error + results \<times> 'g)"
  then show "seeded_run ops s est methods alpha n_trial dimensions g'
        = (Inr (res, g') :: 'e error + results \<times> 'g)"
    by (simp add: seeded_run_def np_random_seed_def)
next
  fix g
  show "(seeded_run ops s est methods alpha n_trial dimensions g :: 'e error + results \<times> 'g)
      = (if s < 0 \<or> 2 ^ 32 \<le> s then Inl SeedOutOfRange
         else PIs_vs_dimensions ops est methods alpha n_trial dimensions (random_seed ops s))"
    by (simp add: seeded_run_def np_random_seed_def)
next
  fix g res g'
  assume "PIs_vs_dimensions ops est methods alpha n_trial dimensions g
        = (Inr (res, g') :: 'e error + results \<times> 'g)"
  then show "fold_err (\<lambda>(d, t). trial_body ops est alpha methods d t) (iterations n_trial dimensions)
          (init_table methods n_trial dimensions, g)
        = (Inr (res, g') :: 'e error + results \<times> 'g)"
    by (rule PIs_Inr_fold)
next
  fix d t res1 g1 res2 g2
  assume "trial_body ops est alpha methods d t (res1, g1)
        = (Inr (res2, g2) :: 'e error + results \<times> 'g)"
  from trial_body_trace [OF this]
  show "\<exists>dat. gen_data ops d g1 = (Inr (dat, g2) :: 'e error + trial_data \<times> 'g)"
    by blast
next
  fix g1 g2 :: nat
  assume "g1 \<noteq> g2"
  then show "map_sum id fst (PIs_vs_dimensions counter_ops est_first [''naive''] alpha 1 [1] g1
            :: unit error + results \<times> nat)
      \<noteq> map_sum id fst (PIs_vs_dimensions counter_ops est_first [''naive''] alpha 1 [1] g2
            :: unit error + results \<times> nat)"
    by (rule single_runs_differ)
next
  fix g :: nat
  show "\<exists>res. PIs_vs_dimensions counter_ops est_first [''naive''] alpha 1 [1] g
        = (Inr (res, g + 401) :: unit error + results \<times> nat)"
    using single_run_first_width [of alpha g] by blast
next
  fix g1 g2
  show "(get_homoscedastic_data ops n_samples ntest sigma g1
        :: 'e error + (real list \<times> real list \<times> real list \<times> real list \<times> real) \<times> 'g)
      = get_homoscedastic_data ops n_samples ntest sigma g2"
    by (simp add: get_homoscedastic_data_def np_random_seed_def)
next
  fix g Xtr ytr Xte yte sig g2
  assume "get_homoscedastic_data ops n_samples ntest sigma g
        = (Inr ((Xtr, ytr, Xte, yte, sig), g2)
            :: 'e error + (real list \<times> real list \<times> real list \<times> real list \<times> real) \<times> 'g)"
  then show "\<exists>noise g1.
        draws (random_exponential ops (4 / 10)) (nat n_samples) (random_seed ops 59) = (Xtr, g1) \<and>
        draws (random_normal ops 0 sigma) (nat n_samples) g1 = (noise, g2) \<and>
        ytr = map2 (+) (map f Xtr) noise \<and>
        Xte = map (\<lambda>i. 1 / 1000 + real i * ((12 / 10 - 1 / 1000) / real_of_int ntest)) [0 ..< nat ntest] \<and>
        yte = map f Xte \<and> sig = 18 / 10 * sigma \<and>
        0 \<le> n_samples \<and> 0 \<le> ntest \<and> 0 \<le> sigma"
    by (rule get_homoscedastic_data_Inr)
next
  fix g
  assume "0 \<le> n_samples \<and> 0 \<le> ntest \<and> 0 \<le> sigma"
  then show "\<exists>r. get_homoscedastic_data ops n_samples ntest sigma g
        = (Inr r :: 'e error + (real list \<times> real list \<times> real list \<times> real list \<times> real) \<times> 'g)"
    using get_homoscedastic_data_ok [of n_samples ntest sigma ops g] by blast
qed

theorem seeded_runs_are_reproducible_witness:
  "(\<exists>res. seeded_run counter_ops 3 est_first [''naive''] (1 / 10) 1 [1] 7
        = (Inr (res, 404) :: unit error + results \<times> nat) \<and>
      seeded_run counter_ops 3 est_first [''naive''] (1 / 10) 1 [1] 404
        = (Inr (res, 404) :: unit error + results \<times> nat) \<and>
      (\<exists>dat. gen_data counter_ops 1 3 = (Inr (dat, 404) :: unit error + trial_data \<times> nat))) \<and>
   map_sum id fst (PIs_vs_dimensions counter_ops est_first [''naive''] (1 / 10) 1 [1] 3
            :: unit error + results \<times> nat)
     \<noteq> map_sum id fst (PIs_vs_dimensions counter_ops est_first [''naive''] (1 / 10) 1 [1] 404
            :: unit error + results \<times> nat) \<and>
   get_homoscedastic_data counter_ops 1 1 (1 / 10) 7
     = (Inr (([236 / 10], [f (236 / 10) + 6], [1 / 1000], [f (1 / 1000)], 18 / 100), 61)
        :: unit error + (real list \<times> real list \<times> real list \<times> real list \<times> real) \<times> nat) \<and>
   draws (random_exponential counter_ops (4 / 10)) (nat 1) (random_seed counter_ops 59) = ([236 / 10], 60)"
proof -
  note T = seeded_runs_are_reproducible
    [where ops = counter_ops and s = 3 and est = est_first and methods = "[''naive'']"
       and alpha = "1 / 10" and n_trial = 1 and dimensions = "[1]"
       and n_samples = 1 and ntest = 1 and sigma = "1 / 10"]
  note T2 = T [THEN conjunct2, THEN conjunct1, rule_format]
  note T3 = T [THEN conjunct2, THEN conjunct2, THEN conjunct1, rule_format]
  note T4 = T [THEN conjunct2, THEN conjunct2, THEN conjunct2, THEN conjunct1, rule_format]
  note T5 = T [THEN conjunct2, THEN conjunct2, THEN conjunct2, THEN conjunct2, THEN conjunct1, rule_format]
  note T6 = T [THEN conjunct2, THEN conjunct2, THEN conjunct2, THEN conjunct2, THEN conjunct2,
    THEN conjunct1, rule_format]
  note T7 = T [THEN conjunct2, THEN conjunct2, THEN conjunct2, THEN conjunct2, THEN conjunct2,
    THEN conjunct2, THEN conjunct1, rule_format]
  note T9 = T [THEN conjunct2, THEN conjunct2, THEN conjunct2, THEN conjunct2, THEN conjunct2,
    THEN conjunct2, THEN conjunct2, THEN conjunct2, THEN conjunct1, rule_format]
  have seed: "random_seed counter_ops 3 = 3" by (simp add: counter_ops_def)
  from T7 [of 3] obtain res where
      p: "PIs_vs_dimensions counter_ops est_first [''naive''] (1 / 10) 1 [1] 3
        = (Inr (res, 404) :: unit error + results \<times> nat)"
    by auto
  have s1: "seeded_run counter_ops 3 est_first [''naive''] (1 / 10) 1 [1] 7
        = (Inr (res, 404) :: unit error + results \<times> nat)"
    unfolding T3 seed using p by simp
  have s2: "seeded_run counter_ops 3 est_first [''naive''] (1 / 10) 1 [1] 404
        = (Inr (res, 404) :: unit error + results \<times> nat)"
    by (rule T2 [OF s1])
  have its: "iterations 1 [1] = [(1, 0)]"
    by (simp add: iterations_def range_py_def)
  have "fold_err (\<lambda>(d, t). trial_body counter_ops est_first (1 / 10) [''naive''] d t) (iterations 1 [1])
          (init_table [''naive''] 1 [1], 3)
        = (Inr (res, 404) :: unit error + results \<times> nat)"
    by (rule T4 [OF p])
  then have "trial_body counter_ops est_first (1 / 10) [''naive''] 1 0 (init_table [''naive''] 1 [1], 3)
        = (Inr (res, 404) :: unit error + results \<times> nat)"
    unfolding its
    by (cases "trial_body counter_ops est_first (1 / 10) [''naive''] 1 0 (init_table [''naive''] 1 [1], 3)
        :: unit error + results \<times> nat") simp_all
  from T5 [OF this]
  have gd: "\<exists>dat. gen_data counter_ops 1 3 = (Inr (dat, 404) :: unit error + trial_data \<times> nat)" .
  have a: "\<exists>res. seeded_run counter_ops 3 est_first [''naive''] (1 / 10) 1 [1] 7
        = (Inr (res, 404) :: unit error + results \<times> nat) \<and>
      seeded_run counter_ops 3 est_first [''naive''] (1 / 10) 1 [1] 404
        = (Inr (res, 404) :: unit error + results \<times> nat) \<and>
      (\<exists>dat. gen_data counter_ops 1 3 = (Inr (dat, 404) :: unit error + trial_data \<times> nat))"
    using s1 s2 gd by blast
  have b: "map_sum id fst (PIs_vs_dimensions counter_ops est_first [''naive''] (1 / 10) 1 [1] 3
            :: unit error + results \<times> nat)
     \<noteq> map_sum id fst (PIs_vs_dimensions counter_ops est_first [''naive''] (1 / 10) 1 [1] 404
            :: unit error + results \<times> nat)"
    by (rule T6) simp
  have c: "get_homoscedastic_data counter_ops 1 1 (1 / 10) 7
     = (Inr (([236 / 10], [f (236 / 10) + 6], [1 / 1000], [f (1 / 1000)], 18 / 100), 61)
        :: unit error + (real list \<times> real list \<times> real list \<times> real list \<times> real) \<times> nat)"
    by (simp add: get_homoscedastic_data_def np_random_seed_def exponential_size_def linspace_def
        normal_loc_scale_size_def Let_def counter_ops_def)
  from T9 [OF c] have d:
      "draws (random_exponential counter_ops (4 / 10)) (nat 1) (random_seed counter_ops 59) = ([236 / 10], 60)"
    by (auto simp: counter_ops_def)
  show ?thesis by (intro conjI a b c d)
qed

section \<open>The plotting step reads the table only\<close>

lemma idim_loop_ok:
  assumes "set ds \<subseteq> fst ` set inner"
    and "k + length ds \<le> length cm" "k + length ds \<le> length cse"
    and "k + length ds \<le> length wm" "k + length ds \<le> length wse"
  shows "\<exists>arrs. idim_loop ntrial inner (enumerate k ds) (cm, cse, wm, wse) = (Inr arrs :: 'e error + _)"
  using assms
proof (induction ds arbitrary: k cm cse wm wse)
  case Nil
  then show ?case by simp
next
  case (Cons d ds)
  from Cons.prems(1) obtain c where c: "map_of inner d = Some c"
    by (metis domD dom_map_of_conv_image_fst list.set_intros(1) subsetD)
  have "\<exists>arrs. idim_loop ntrial inner (enumerate (Suc k) ds)
      (cm[k := array_mean (coverage c)], cse[k := standard_error ntrial (coverage c)],
       wm[k := array_mean (width_mean c)], wse[k := standard_error ntrial (width_mean c)])
      = (Inr arrs :: 'e error + _)"
    by (rule Cons.IH) (use Cons.prems in auto)
  then show ?case using c Cons.prems by simp
qed

lemma plot_method_ok:
  assumes "map_of res method = Some inner"
  shows "\<exists>fig'. plot_method ntrial method (res, fig) = (Inr (res, fig') :: 'e error + results \<times> figure)"
proof -
  let ?z = "replicate (length (map fst inner)) (Some (Fin 0))"
  have "\<exists>arrs. idim_loop ntrial inner (enumerate 0 (map fst inner)) (?z, ?z, ?z, ?z)
      = (Inr arrs :: 'e error + _)"
    by (rule idim_loop_ok) simp_all
  then obtain cm cse wm wse where
      "idim_loop ntrial inner (enumerate 0 (map fst inner)) (?z, ?z, ?z, ?z)
        = (Inr (cm, cse, wm, wse) :: 'e error + _)"
    by (metis prod.collapse)
  then show ?thesis using assms by (simp add: plot_method_def Let_def)
qed

lemma plot_methods_ok:
  assumes "set ks \<subseteq> fst ` set res"
  shows "\<exists>fig'. plot_methods ntrial ks (res, fig) = (Inr (res, fig') :: 'e error + results \<times> figure)"
  using assms
proof (induction ks arbitrary: fig)
  case Nil
  then show ?case by simp
next
  case (Cons k ks)
  from Cons.prems obtain inner where "map_of res k = Some inner"
    by (metis domD dom_map_of_conv_image_fst list.set_intros(1) subsetD)
  from plot_method_ok [OF this] obtain fig1 where
      f1: "plot_method ntrial k (res, fig) = (Inr (res, fig1) :: 'e error + results \<times> figure)"
    by blast
  from Cons.IH [of fig1] Cons.prems obtain fig2 where
      "plot_methods ntrial ks (res, fig1) = (Inr (res, fig2) :: 'e error + results \<times> figure)"
    by auto
  then show ?case using f1 by simp
qed

lemma plot_simulation_results_ok:
  "\<exists>fig. plot_simulation_results ntrial alpha res methods title
      = (Inr (res, fig) :: 'e error + results \<times> figure)"
proof -
  obtain fig' where
      "plot_methods ntrial (map fst res) (res, \<lparr> suptitle = title, ax1 = new_axes, ax2 = new_axes \<rparr>)
        = (Inr (res, fig') :: 'e error + results \<times> figure)"
    using plot_methods_ok [of "map fst res" res ntrial] by auto
  then show ?thesis by (simp add: plot_simulation_results_def)
qed

text \<open>
  C8.  The plotting step never raises on a table, and the table object is the same
  after the call as before: no array and no key of it is changed.  Calling it a second
  time, on the table the first call leaves, draws the same panel data.
\<close>

theorem plotting_leaves_the_table_unchanged:
  "\<exists>fig. plot_simulation_results ntrial alpha res methods title
        = (Inr (res, fig) :: 'e error + results \<times> figure) \<and>
     bind_err (plot_simulation_results ntrial alpha res methods title)
        (\<lambda>(res', fig'). plot_simulation_results ntrial alpha res' methods title)
        = (Inr (res, fig) :: 'e error + results \<times> figure)"
proof -
  obtain fig where "plot_simulation_results ntrial alpha res methods title
        = (Inr (res, fig) :: 'e error + results \<times> figure)"
    using plot_simulation_results_ok by blast
  then show ?thesis by simp
qed

end
